theory Spec2Isabelle
  imports Complex_Main "HOL-Library.Word"
begin

section \<open>Data model of the audio pre-processing pipeline\<close>

text \<open>
  The pipeline of \<^verbatim>\<open>processAudio\<close> works on Web Audio buffers. A sample is a
  32-bit float in the browser; here a sample is a real number. Comparisons against the
  thresholds and the arithmetic of the WAV quantiser are exact on such values. Where the
  code stores a computed product back as a 32-bit float (the noise gate, the gain value
  and the gain rendering) the model applies a rounding function \<open>rnd\<close>, a parameter:
  the identity gives exact arithmetic, any other choice the platform's rounding.
  Samples are finite: a decoded buffer holds no NaN.
\<close>

type_synonym byte = "8 word"

text \<open>\<^verbatim>\<open>AudioBuffer\<close>: a sample rate and one sample sequence per channel.\<close>

record AudioBuffer =
  sampleRate :: nat
  channels :: "real list list"

definition numberOfChannels :: "AudioBuffer \<Rightarrow> nat" where
  "numberOfChannels b = length (channels b)"

text \<open>\<^verbatim>\<open>buffer.length\<close>: the number of sample frames (every channel has that many).\<close>

definition bufferLength :: "AudioBuffer \<Rightarrow> nat" where
  "bufferLength b = (case channels b of [] \<Rightarrow> 0 | c # _ \<Rightarrow> length c)"

text \<open>
  A value thrown by the JavaScript: an \<^verbatim>\<open>Error\<close> object (with its message; a
  \<^verbatim>\<open>DOMException\<close> of the platform is one too) or any other value.
\<close>

datatype thrown = JsError string | NonError

text \<open>\<^verbatim>\<open>ProcessingOptions\<close> of Options.tsx, in the order of its declaration.\<close>

record ProcessingOptions =
  convertToMono16kHz :: bool
  noiseReduction :: bool
  normalizeVolume :: bool
  removeSilence :: bool

text \<open>A \<^verbatim>\<open>File\<close>: its name, its bytes and its MIME type.\<close>

record File =
  fileName :: string
  fileBytes :: "byte list"
  fileType :: string

text \<open>
  \<^verbatim>\<open>getChannelData(i)\<close> throws an IndexSizeError when the buffer has no channel
  \<open>i\<close>.
\<close>

definition getChannelData :: "AudioBuffer \<Rightarrow> nat \<Rightarrow> thrown + real list" where
  "getChannelData b i =
     (if i < length (channels b) then Inr (channels b ! i)
      else Inl (JsError ''IndexSizeError''))"

text \<open>
  \<^verbatim>\<open>audioContext.createBuffer(numberOfChannels, length, sampleRate)\<close>: a buffer of
  zeros; the platform throws a NotSupportedError for no channel or no frame. (Its
  check of the sample rate is left out: every call passes the rate of a buffer that
  exists.)
\<close>

definition createBuffer :: "nat \<Rightarrow> nat \<Rightarrow> nat \<Rightarrow> thrown + AudioBuffer" where
  "createBuffer numOfChan len sr =
     (if numOfChan = 0 \<or> len = 0 then Inl (JsError ''NotSupportedError'')
      else Inr \<lparr>sampleRate = sr, channels = replicate numOfChan (replicate len 0)\<rparr>)"

text \<open>Sequencing of steps that may throw: the first thrown value ends the run.\<close>

definition andThen :: "thrown + 'a \<Rightarrow> ('a \<Rightarrow> thrown + 'b) \<Rightarrow> thrown + 'b" where
  "andThen r f = (case r of Inl t \<Rightarrow> Inl t | Inr x \<Rightarrow> f x)"

section \<open>Step 2: remove silence\<close>

definition silenceThreshold :: real where
  "silenceThreshold = 1 / 100"

definition minSilenceDuration :: real where
  "minSilenceDuration = 3 / 10"

definition paddingDuration :: real where
  "paddingDuration = 1 / 10"

definition minSilenceSamples :: "nat \<Rightarrow> nat" where
  "minSilenceSamples sr = nat \<lfloor>minSilenceDuration * real sr\<rfloor>"

definition paddingSamples :: "nat \<Rightarrow> nat" where
  "paddingSamples sr = nat \<lfloor>paddingDuration * real sr\<rfloor>"

text \<open>
  The inner \<^verbatim>\<open>while\<close> loop: from \<open>silenceEnd\<close> on, skip the samples below the
  threshold.
\<close>

function silenceEndLoop :: "real list \<Rightarrow> nat \<Rightarrow> nat" where
  "silenceEndLoop channelData silenceEnd =
     (if silenceEnd < length channelData \<and> \<bar>channelData ! silenceEnd\<bar> < silenceThreshold
      then silenceEndLoop channelData (Suc silenceEnd)
      else silenceEnd)"
  by pat_completeness auto
termination
  by (relation "measure (\<lambda>(cd, e). length cd - e)") auto

declare silenceEndLoop.simps [simp del]

lemma silenceEndLoop_ge: "e \<le> silenceEndLoop cd e"
proof (induction cd e rule: silenceEndLoop.induct)
  case (1 cd e)
  show ?case
  proof (cases "e < length cd \<and> \<bar>cd ! e\<bar> < silenceThreshold")
    case True
    with 1 have "Suc e \<le> silenceEndLoop cd (Suc e)" by simp
    moreover from True have "silenceEndLoop cd e = silenceEndLoop cd (Suc e)"
      by (subst silenceEndLoop.simps) simp
    ultimately show ?thesis by simp
  next
    case False
    then show ?thesis by (subst silenceEndLoop.simps) auto
  qed
qed

lemma silenceEndLoop_gt:
  "i < length cd \<Longrightarrow> \<bar>cd ! i\<bar> < silenceThreshold \<Longrightarrow> i < silenceEndLoop cd i"
  using silenceEndLoop_ge [of "Suc i" cd] by (subst silenceEndLoop.simps) simp

lemma silenceEndLoop_le: "e \<le> length cd \<Longrightarrow> silenceEndLoop cd e \<le> length cd"
proof (induction cd e rule: silenceEndLoop.induct)
  case (1 cd e)
  show ?case
  proof (cases "e < length cd \<and> \<bar>cd ! e\<bar> < silenceThreshold")
    case True
    with 1 have "silenceEndLoop cd (Suc e) \<le> length cd" by simp
    with True show ?thesis by (subst silenceEndLoop.simps) simp
  next
    case False
    with 1 show ?thesis by (subst silenceEndLoop.simps) auto
  qed
qed

text \<open>
  The \<^verbatim>\<open>for\<close> loop over the samples. Its state is the index \<open>i\<close>, the flag
  \<open>inSound\<close>, \<open>soundStart\<close> and the intervals pushed so far (each a pair of
  \<^verbatim>\<open>start\<close> and \<^verbatim>\<open>end\<close>). After a silent run the code sets
  \<^verbatim>\<open>i = silenceEnd - 1\<close> and the loop header adds one.
\<close>

function scanLoop ::
  "real list \<Rightarrow> nat \<Rightarrow> nat \<Rightarrow> bool \<Rightarrow> nat \<Rightarrow> (nat \<times> nat) list
     \<Rightarrow> bool \<times> nat \<times> (nat \<times> nat) list" where
  "scanLoop channelData minSilence i inSound soundStart soundIntervals =
     (if i < length channelData then
        if \<not> inSound \<and> \<bar>channelData ! i\<bar> > silenceThreshold then
          scanLoop channelData minSilence (Suc i) True i soundIntervals
        else if inSound \<and> \<bar>channelData ! i\<bar> < silenceThreshold then
          if silenceEndLoop channelData i - i \<ge> minSilence then
            scanLoop channelData minSilence (Suc (silenceEndLoop channelData i - 1)) False
              soundStart (soundIntervals @ [(soundStart, i)])
          else
            scanLoop channelData minSilence (Suc (silenceEndLoop channelData i - 1)) inSound
              soundStart soundIntervals
        else scanLoop channelData minSilence (Suc i) inSound soundStart soundIntervals
      else (inSound, soundStart, soundIntervals))"
  by pat_completeness auto
termination
proof (relation "measure (\<lambda>(cd, m, i, b, s, ivs). length cd - i)", goal_cases)
  case 1
  show ?case by simp
next
  case (2 cd m i b s ivs)
  then show ?case by simp
next
  case (3 cd m i b s ivs)
  then show ?case using silenceEndLoop_gt [of i cd] by simp
next
  case (4 cd m i b s ivs)
  then show ?case using silenceEndLoop_gt [of i cd] by simp
next
  case (5 cd m i b s ivs)
  then show ?case by simp
qed

declare scanLoop.simps [simp del]

text \<open>The intervals after the loop: an interval still open is closed at the end.\<close>

definition soundIntervalsOf :: "real list \<Rightarrow> nat \<Rightarrow> (nat \<times> nat) list" where
  "soundIntervalsOf channelData minSilence =
     (case scanLoop channelData minSilence 0 False 0 [] of
        (inSound, soundStart, soundIntervals) \<Rightarrow>
          if inSound then soundIntervals @ [(soundStart, length channelData)]
          else soundIntervals)"

text \<open>\<^verbatim>\<open>soundIntervals.reduce\<close>: the length of the new buffer.\<close>

definition totalLengthOf :: "nat \<Rightarrow> (nat \<times> nat) list \<Rightarrow> nat" where
  "totalLengthOf padding soundIntervals =
     foldl (\<lambda>sum (start, stop). sum + (stop - start) + padding * 2) 0 soundIntervals"

text \<open>\<^verbatim>\<open>channelData.slice(start, end)\<close>, for indices that are not negative.\<close>

definition sliceArray :: "real list \<Rightarrow> nat \<Rightarrow> nat \<Rightarrow> real list" where
  "sliceArray xs start stop = take (stop - start) (drop start xs)"

text \<open>
  \<^verbatim>\<open>target.set(source, offset)\<close> of a typed array: a RangeError when the source
  does not fit.
\<close>

definition typedSet :: "real list \<Rightarrow> real list \<Rightarrow> nat \<Rightarrow> thrown + real list" where
  "typedSet target source offset =
     (if offset + length source > length target then Inl (JsError ''RangeError'')
      else Inr (take offset target @ source @ drop (offset + length source) target))"

text \<open>
  The \<^verbatim>\<open>forEach\<close> that fills the new channel: padding, segment, padding for every
  interval. The state is the new channel data and \<open>offset\<close>.
\<close>

fun fillIntervals ::
  "real list \<Rightarrow> nat \<Rightarrow> (nat \<times> nat) list \<Rightarrow> real list \<Rightarrow> nat \<Rightarrow> thrown + real list" where
  "fillIntervals channelData padding [] newChannelData offset = Inr newChannelData"
| "fillIntervals channelData padding ((start, stop) # rest) newChannelData offset =
     andThen (typedSet newChannelData (replicate padding 0) offset) (\<lambda>d1.
     andThen (typedSet d1 (sliceArray channelData start stop) (offset + padding)) (\<lambda>d2.
     andThen (typedSet d2 (replicate padding 0)
                (offset + padding + length (sliceArray channelData start stop))) (\<lambda>d3.
     fillIntervals channelData padding rest d3
       (offset + padding + length (sliceArray channelData start stop) + padding))))"

section \<open>Step 3: noise reduction (simple gate)\<close>

definition noiseThreshold :: real where
  "noiseThreshold = 2 / 100"

definition reductionAmount :: real where
  "reductionAmount = 2 / 10"

text \<open>
  The \<^verbatim>\<open>for\<close> loop with \<^verbatim>\<open>channelData[i] *= reductionAmount\<close>: the product is
  stored in a Float32Array, which rounds it (\<open>rnd\<close>).
\<close>

function noiseGateLoop :: "(real \<Rightarrow> real) \<Rightarrow> real list \<Rightarrow> nat \<Rightarrow> real list" where
  "noiseGateLoop rnd channelData i =
     (if i < length channelData then
        noiseGateLoop rnd
          (if \<bar>channelData ! i\<bar> < noiseThreshold
           then channelData[i := rnd (channelData ! i * reductionAmount)]
           else channelData)
          (Suc i)
      else channelData)"
  by pat_completeness auto
termination
  by (relation "measure (\<lambda>(rnd, cd, i). length cd - i)") auto

declare noiseGateLoop.simps [simp del]

section \<open>Step 4: normalize volume\<close>

definition targetPeak :: real where
  "targetPeak = 95 / 100"

text \<open>
  \<^verbatim>\<open>channelData.reduce((max, val) => Math.max(max, Math.abs(val)), 0)\<close>.
\<close>

definition peakOf :: "real list \<Rightarrow> real" where
  "peakOf channelData = foldl (\<lambda>mx val. max mx \<bar>val\<bar>) 0 channelData"

text \<open>
  The rendering of source, gain node and destination in an
  \<^verbatim>\<open>OfflineAudioContext(1, length, sampleRate)\<close>. The constructor throws a
  NotSupportedError for a length of zero. The source is mono and at the rate of the
  context, and the gain is constant from time 0, so frame \<open>k\<close> of the result is
  frame \<open>k\<close> of the source times the gain; the gain parameter and the product are
  32-bit floats (\<open>rnd\<close>).
\<close>

definition renderGain ::
  "(real \<Rightarrow> real) \<Rightarrow> real \<Rightarrow> AudioBuffer \<Rightarrow> nat \<Rightarrow> nat \<Rightarrow> thrown + AudioBuffer" where
  "renderGain rnd gainValue source len sr =
     (if len = 0 then Inl (JsError ''NotSupportedError'')
      else andThen (getChannelData source 0) (\<lambda>frames.
        Inr \<lparr>sampleRate = sr,
             channels = [map (\<lambda>k. if k < length frames then rnd (frames ! k * rnd gainValue)
                                    else 0) [0..<len]]\<rparr>))"

section \<open>The working state and the three steps on it\<close>

text \<open>
  The working state after Step 1: \<open>processedBuffer\<close> and \<open>channelData\<close>. In the
  code \<open>channelData\<close> is the live channel 0 of \<open>processedBuffer\<close>, so a write to it
  is a write to the buffer; the model keeps both and writes both.
\<close>

record work =
  processedBuffer :: AudioBuffer
  channelData :: "real list"

text \<open>Step 2 as a whole: the body of \<^verbatim>\<open>if (options.removeSilence)\<close>.\<close>

definition removeSilenceStep :: "work \<Rightarrow> thrown + work" where
  "removeSilenceStep w =
     (let sr = sampleRate (processedBuffer w);
          soundIntervals = soundIntervalsOf (channelData w) (minSilenceSamples sr)
      in if length soundIntervals > 0 then
           andThen (createBuffer 1 (totalLengthOf (paddingSamples sr) soundIntervals) sr)
             (\<lambda>newBuffer.
           andThen (getChannelData newBuffer 0) (\<lambda>newChannelData.
           andThen (fillIntervals (channelData w) (paddingSamples sr) soundIntervals
                      newChannelData 0) (\<lambda>filled.
             Inr \<lparr>processedBuffer = newBuffer\<lparr>channels := [filled]\<rparr>,
                  channelData = filled\<rparr>)))
         else
           andThen (createBuffer 1 1 sr) (\<lambda>newBuffer.
           andThen (getChannelData newBuffer 0) (\<lambda>newChannelData.
             Inr \<lparr>processedBuffer = newBuffer, channelData = newChannelData\<rparr>)))"

text \<open>Step 3 as a whole: the body of \<^verbatim>\<open>if (options.noiseReduction)\<close>.\<close>

definition noiseReductionStep :: "(real \<Rightarrow> real) \<Rightarrow> work \<Rightarrow> work" where
  "noiseReductionStep rnd w =
     (let gated = noiseGateLoop rnd (channelData w) 0
      in \<lparr>processedBuffer =
            (processedBuffer w)\<lparr>channels := (channels (processedBuffer w))[0 := gated]\<rparr>,
          channelData = gated\<rparr>)"

text \<open>
  The body of \<^verbatim>\<open>if (options.normalizeVolume)\<close>. The maximum is read from
  \<open>channelData\<close>, the rendering from \<open>processedBuffer\<close>; \<open>channelData\<close> is not
  assigned again.
\<close>

definition normalizeVolumeStep :: "(real \<Rightarrow> real) \<Rightarrow> work \<Rightarrow> thrown + work" where
  "normalizeVolumeStep rnd w =
     (let mx = peakOf (channelData w)
      in if mx > 1 / 1000 then
           andThen (renderGain rnd (targetPeak / mx) (processedBuffer w)
                      (bufferLength (processedBuffer w)) (sampleRate (processedBuffer w)))
             (\<lambda>rendered. Inr (w\<lparr>processedBuffer := rendered\<rparr>))
         else Inr w)"

section \<open>The WAV encoder\<close>

text \<open>
  \<^verbatim>\<open>view.setUint16\<close>, \<^verbatim>\<open>view.setUint32\<close> and \<^verbatim>\<open>view.setInt16\<close>, little
  endian: the bytes written. The conversion to a byte drops the higher bits.
\<close>

definition setUint16 :: "nat \<Rightarrow> byte list" where
  "setUint16 d = [of_nat d, of_nat (d div 2 ^ 8)]"

definition setUint32 :: "nat \<Rightarrow> byte list" where
  "setUint32 d = [of_nat d, of_nat (d div 2 ^ 8), of_nat (d div 2 ^ 16), of_nat (d div 2 ^ 24)]"

definition setInt16 :: "int \<Rightarrow> byte list" where
  "setInt16 d = [of_int d, of_int (d div 2 ^ 8)]"

text \<open>\<^verbatim>\<open>x | 0\<close>: truncate towards zero, then wrap to a signed 32-bit integer.\<close>

definition toInt32 :: "real \<Rightarrow> int" where
  "toInt32 x = sint (word_of_int (if x < 0 then \<lceil>x\<rceil> else \<lfloor>x\<rfloor>) :: 32 word)"

text \<open>
  The two lines of the inner loop that turn a sample into a 16-bit integer. In
  JavaScript \<^verbatim>\<open>0.5 + sample < 0\<close> is \<^verbatim>\<open>(0.5 + sample) < 0\<close>.
\<close>

definition quantizeSample :: "real \<Rightarrow> int" where
  "quantizeSample s =
     (let sample = max (- 1) (min 1 s)
      in toInt32 (if 1 / 2 + sample < 0 then sample * 32768 else sample * 32767))"

definition wavHeader :: "AudioBuffer \<Rightarrow> byte list" where
  "wavHeader buffer =
     (let numOfChan = numberOfChannels buffer;
          len = bufferLength buffer * numOfChan * 2 + 44
      in setUint32 0x46464952 @ setUint32 (len - 8) @ setUint32 0x45564157 @
         setUint32 0x20746d66 @ setUint32 16 @ setUint16 1 @ setUint16 numOfChan @
         setUint32 (sampleRate buffer) @ setUint32 (sampleRate buffer * 2 * numOfChan) @
         setUint16 (numOfChan * 2) @ setUint16 16 @ setUint32 0x61746164 @
         setUint32 (len - 40 - 4))"

text \<open>The interleaving loops: for every frame, one sample of every channel.\<close>

definition wavData :: "AudioBuffer \<Rightarrow> byte list" where
  "wavData buffer =
     concat (map (\<lambda>offset.
       concat (map (\<lambda>i. setInt16 (quantizeSample (channels buffer ! i ! offset)))
                 [0..<numberOfChannels buffer]))
       [0..<bufferLength buffer])"

definition audioBufferToWav :: "AudioBuffer \<Rightarrow> byte list" where
  "audioBufferToWav buffer = wavHeader buffer @ wavData buffer"

section \<open>The pipeline: processAudio\<close>

text \<open>
  The platform the function runs on: \<^verbatim>\<open>decodeAudioData\<close> (\<open>None\<close> when its
  promise rejects); the number of frames of the rendering of Step 1, which is the
  product \<^verbatim>\<open>originalBuffer.duration * targetSampleRate\<close> of 64-bit floats as the
  constructor of the offline context converts it to an unsigned integer; the frames
  the platform's resampler renders from a buffer; and the rounding of a value stored
  as a 32-bit float.
\<close>

record platform =
  decodeAudioData :: "byte list \<Rightarrow> AudioBuffer option"
  renderLength :: "AudioBuffer \<Rightarrow> nat"
  resampledFrame :: "AudioBuffer \<Rightarrow> nat \<Rightarrow> real"
  fround :: "real \<Rightarrow> real"

definition targetSampleRate :: nat where
  "targetSampleRate = 16000"

definition decodeErrorMessage :: string where
  "decodeErrorMessage =
     ''Audio decoding failed. The file may be corrupt or in a format not supported by your browser.''"

definition unexpectedErrorMessage :: string where
  "unexpectedErrorMessage = ''An unexpected error occurred during audio pre-processing.''"

text \<open>The outer \<^verbatim>\<open>catch\<close>: an Error is thrown again, anything else is replaced.\<close>

definition outerCatch :: "thrown \<Rightarrow> thrown" where
  "outerCatch t = (case t of JsError m \<Rightarrow> JsError m | NonError \<Rightarrow> JsError unexpectedErrorMessage)"

text \<open>\<^verbatim>\<open>Object.values(options).some(v => v)\<close>.\<close>

definition needsProcessing :: "ProcessingOptions \<Rightarrow> bool" where
  "needsProcessing options =
     (convertToMono16kHz options \<or> noiseReduction options \<or> normalizeVolume options \<or>
      removeSilence options)"

definition isStandardFormat :: "AudioBuffer \<Rightarrow> bool" where
  "isStandardFormat b = (sampleRate b = targetSampleRate \<and> numberOfChannels b = 1)"

text \<open>
  Step 1: the rendering of the original buffer in an
  \<^verbatim>\<open>OfflineAudioContext(1, duration * 16000, 16000)\<close>. The length argument is
  computed in 64-bit floats and converted to an unsigned integer by the constructor,
  which throws a NotSupportedError when the result is zero. That number of frames and
  the frames themselves are the platform's.
\<close>

definition resampleStep :: "platform \<Rightarrow> AudioBuffer \<Rightarrow> thrown + AudioBuffer" where
  "resampleStep p originalBuffer =
     (let len = renderLength p originalBuffer
      in if len = 0 then Inl (JsError ''NotSupportedError'')
         else Inr \<lparr>sampleRate = targetSampleRate,
                   channels = [map (resampledFrame p originalBuffer) [0..<len]]\<rparr>)"

text \<open>
  \<^verbatim>\<open>file.name.substring(0, file.name.lastIndexOf('.')) || file.name\<close>: the name up
  to its last dot, or the whole name when that is empty or there is no dot.
\<close>

fun lastIndexOf :: "char \<Rightarrow> string \<Rightarrow> nat option" where
  "lastIndexOf c [] = None"
| "lastIndexOf c (x # xs) =
     (case lastIndexOf c xs of
        Some k \<Rightarrow> Some (Suc k)
      | None \<Rightarrow> if x = c then Some 0 else None)"

definition originalFileName :: "string \<Rightarrow> string" where
  "originalFileName nm =
     (case lastIndexOf CHR ''.'' nm of
        None \<Rightarrow> nm
      | Some k \<Rightarrow> if take k nm = [] then nm else take k nm)"

definition processedFile :: "File \<Rightarrow> byte list \<Rightarrow> File" where
  "processedFile file wavBlob =
     \<lparr>fileName = originalFileName (fileName file) @ ''_processed.wav'',
      fileBytes = wavBlob, fileType = ''audio/wav''\<rparr>"

text \<open>
  The stages of a run, recorded in the order in which the run enters them, so that
  what a run did not attempt can be stated. A run is the list of stages entered and
  either the value thrown or the result so far.
\<close>

datatype stage = Decoding | Resample | Trim | Gate | Normalize | Encode

definition enter :: "stage \<Rightarrow> ('a \<Rightarrow> thrown + 'b) \<Rightarrow> stage list \<times> (thrown + 'a)
                       \<Rightarrow> stage list \<times> (thrown + 'b)" where
  "enter st f r =
     (case r of
        (tr, Inl t) \<Rightarrow> (tr, Inl t)
      | (tr, Inr x) \<Rightarrow> (tr @ [st], f x))"

definition enterIf :: "bool \<Rightarrow> stage \<Rightarrow> ('a \<Rightarrow> thrown + 'a) \<Rightarrow> stage list \<times> (thrown + 'a)
                       \<Rightarrow> stage list \<times> (thrown + 'a)" where
  "enterIf c st f r = (if c then enter st f r else r)"

text \<open>
  \<^verbatim>\<open>processAudio\<close>. The decoding comes first; its failure is replaced by the
  error of the inner \<^verbatim>\<open>catch\<close>. Then the test of the options, Step 1 unless the
  buffer is mono at 16 kHz, \<^verbatim>\<open>getChannelData(0)\<close>, Steps 2 to 4 under their
  options, and the encoding. Whatever is thrown passes the outer \<^verbatim>\<open>catch\<close>.
  The creation of the audio context and \<^verbatim>\<open>file.arrayBuffer()\<close>, which come
  before the decoding, are taken to succeed: \<open>fileBytes\<close> is what the latter returns.
\<close>

definition processAudio ::
  "platform \<Rightarrow> File \<Rightarrow> ProcessingOptions \<Rightarrow> stage list \<times> (thrown + File)" where
  "processAudio p file options =
     (case decodeAudioData p (fileBytes file) of
        None \<Rightarrow> ([Decoding], Inl (outerCatch (JsError decodeErrorMessage)))
      | Some originalBuffer \<Rightarrow>
          if \<not> needsProcessing options then ([Decoding], Inr file)
          else
            let r1 = enterIf (\<not> isStandardFormat originalBuffer) Resample (resampleStep p)
                       ([Decoding], Inr originalBuffer);
                r1' = (fst r1, andThen (snd r1) (\<lambda>processedBuffer.
                         andThen (getChannelData processedBuffer 0) (\<lambda>channelData.
                           Inr \<lparr>processedBuffer = processedBuffer,
                                channelData = channelData\<rparr>)));
                r2 = enterIf (removeSilence options) Trim removeSilenceStep r1';
                r3 = enterIf (noiseReduction options) Gate
                       (\<lambda>w. Inr (noiseReductionStep (fround p) w)) r2;
                r4 = enterIf (normalizeVolume options) Normalize
                       (normalizeVolumeStep (fround p)) r3;
                r5 = enter Encode
                       (\<lambda>w. Inr (processedFile file (audioBufferToWav (processedBuffer w)))) r4
            in (fst r5, case snd r5 of Inl t \<Rightarrow> Inl (outerCatch t) | Inr f \<Rightarrow> Inr f))"

section \<open>Notions used to state the properties\<close>

text \<open>
  What the reconstruction of Step 2 amounts to: for every interval, padding zeros, the
  samples of the interval, padding zeros.
\<close>

definition paddedSegments :: "real list \<Rightarrow> nat \<Rightarrow> (nat \<times> nat) list \<Rightarrow> real list" where
  "paddedSegments cd padding ivs =
     concat (map (\<lambda>(start, stop).
       replicate padding 0 @ sliceArray cd start stop @ replicate padding 0) ivs)"

text \<open>Intervals that are not empty and end within \<open>n\<close> samples.\<close>

definition wellFormed :: "nat \<Rightarrow> (nat \<times> nat) list \<Rightarrow> bool" where
  "wellFormed n ivs = list_all (\<lambda>(start, stop). start < stop \<and> stop \<le> n) ivs"

text \<open>The index of the first sample above the silence threshold (the length if none).\<close>

definition firstSound :: "real list \<Rightarrow> nat" where
  "firstSound cd = length (takeWhile (\<lambda>x. \<not> \<bar>x\<bar> > silenceThreshold) cd)"

text \<open>The length of the run of samples below the silence threshold that starts at \<open>i\<close>.\<close>

definition silentRunFrom :: "real list \<Rightarrow> nat \<Rightarrow> nat" where
  "silentRunFrom cd i = length (takeWhile (\<lambda>x. \<bar>x\<bar> < silenceThreshold) (drop i cd))"

text \<open>
  A working state whose buffer is mono and whose \<open>channelData\<close> is the channel of
  the buffer: the state of the pipeline after Step 1.
\<close>

definition monoWork :: "nat \<Rightarrow> real list \<Rightarrow> work" where
  "monoWork sr cd = \<lparr>processedBuffer = \<lparr>sampleRate = sr, channels = [cd]\<rparr>, channelData = cd\<rparr>"

text \<open>What Step 3 does to one sample.\<close>

definition gateSample :: "(real \<Rightarrow> real) \<Rightarrow> real \<Rightarrow> real" where
  "gateSample rnd x = (if \<bar>x\<bar> < noiseThreshold then rnd (x * reductionAmount) else x)"

text \<open>What the gain rendering of Step 4 does to the samples, for the peak \<open>mx\<close>.\<close>

definition applyGain :: "(real \<Rightarrow> real) \<Rightarrow> real \<Rightarrow> real list \<Rightarrow> real list" where
  "applyGain rnd mx cd = map (\<lambda>x. rnd (x * rnd (targetPeak / mx))) cd"

text \<open>The samples Step 2 returns for a channel at a sample rate.\<close>

definition trimSamples :: "nat \<Rightarrow> real list \<Rightarrow> real list" where
  "trimSamples sr cd =
     (if soundIntervalsOf cd (minSilenceSamples sr) = [] then [0]
      else paddedSegments cd (paddingSamples sr) (soundIntervalsOf cd (minSilenceSamples sr)))"

text \<open>The stages after Step 1 that the options switch on, in the order of the code.\<close>

definition optionalStages :: "ProcessingOptions \<Rightarrow> stage list" where
  "optionalStages options =
     (if removeSilence options then [Trim] else []) @
     (if noiseReduction options then [Gate] else []) @
     (if normalizeVolume options then [Normalize] else [])"

text \<open>The samples of the buffer that is encoded, from the samples after Step 1.\<close>

definition samplesAfterTrim :: "ProcessingOptions \<Rightarrow> real list \<Rightarrow> real list" where
  "samplesAfterTrim options cd =
     (if removeSilence options then trimSamples targetSampleRate cd else cd)"

definition samplesAfterGate :: "(real \<Rightarrow> real) \<Rightarrow> ProcessingOptions \<Rightarrow> real list \<Rightarrow> real list" where
  "samplesAfterGate rnd options cd =
     (if noiseReduction options then map (gateSample rnd) (samplesAfterTrim options cd)
      else samplesAfterTrim options cd)"

definition encodedSamples :: "(real \<Rightarrow> real) \<Rightarrow> ProcessingOptions \<Rightarrow> real list \<Rightarrow> real list" where
  "encodedSamples rnd options cd =
     (if normalizeVolume options \<and> peakOf (samplesAfterGate rnd options cd) > 1 / 1000
      then applyGain rnd (peakOf (samplesAfterGate rnd options cd))
             (samplesAfterGate rnd options cd)
      else samplesAfterGate rnd options cd)"

text \<open>
  The samples after Step 1: the channel of a buffer that is mono at 16 kHz, otherwise
  the frames the platform renders.
\<close>

definition samplesAfterResample :: "platform \<Rightarrow> AudioBuffer \<Rightarrow> real list" where
  "samplesAfterResample p b =
     (if isStandardFormat b then hd (channels b)
      else map (resampledFrame p b) [0..<renderLength p b])"

text \<open>
  The quantiser as the specification words it: the clamped sample times 32768 when it
  is negative, times 32767 otherwise.
\<close>

definition quantizeAsSpecified :: "real \<Rightarrow> int" where
  "quantizeAsSpecified s =
     (let sample = max (- 1) (min 1 s)
      in toInt32 (if sample < 0 then sample * 32768 else sample * 32767))"

text \<open>A rounding for the examples: to the nearest multiple of \<open>1 / 2 ^ 24\<close>.\<close>

definition gridRound :: "real \<Rightarrow> real" where
  "gridRound y = real_of_int \<lfloor>y * 2 ^ 24 + 1 / 2\<rfloor> / 2 ^ 24"

text \<open>Inputs for the examples: options, a file and two platforms.\<close>

definition noOptions :: ProcessingOptions where
  "noOptions = \<lparr>convertToMono16kHz = False, noiseReduction = False,
                 normalizeVolume = False, removeSilence = False\<rparr>"

definition onlyNormalize :: ProcessingOptions where
  "onlyNormalize = \<lparr>convertToMono16kHz = False, noiseReduction = False,
                     normalizeVolume = True, removeSilence = False\<rparr>"

definition exampleFile :: File where
  "exampleFile = \<lparr>fileName = ''a.mp3'', fileBytes = [1, 2, 3], fileType = ''audio/mpeg''\<rparr>"

definition stereoBuffer :: AudioBuffer where
  "stereoBuffer = \<lparr>sampleRate = 44100, channels = [[1 / 2, 1 / 2, 1 / 2], [0, 0, 0]]\<rparr>"

text \<open>
  A platform that decodes nothing, and one that decodes every file to a stereo buffer
  of three frames at 44.1 kHz (3 / 44100 * 16000 is 1.08..., one frame at 16 kHz) and
  renders the constant 1/2 when it resamples.
\<close>

definition rejectingPlatform :: platform where
  "rejectingPlatform =
     \<lparr>decodeAudioData = (\<lambda>bytes. None), renderLength = (\<lambda>b. 0),
      resampledFrame = (\<lambda>b k. 0), fround = (\<lambda>y. y)\<rparr>"

definition stereoPlatform :: platform where
  "stereoPlatform =
     \<lparr>decodeAudioData = (\<lambda>bytes. Some stereoBuffer), renderLength = (\<lambda>b. 1),
      resampledFrame = (\<lambda>b k. 1 / 2), fround = (\<lambda>y. y)\<rparr>"

section \<open>The silence scan: its loop invariant rule\<close>

text \<open>
  A property \<open>I\<close> of the loop state that holds at the start and is kept by each of the
  four ways through the loop body holds of the state the loop ends in, with \<open>i\<close> at
  the length of the channel.
\<close>

lemma scanLoop_invariant:
  assumes init: "I i b s ivs" "i \<le> length cd"
    and start: "\<And>i s ivs. I i False s ivs \<Longrightarrow> i < length cd \<Longrightarrow>
                  \<bar>cd ! i\<bar> > silenceThreshold \<Longrightarrow> I (Suc i) True i ivs"
    and cut: "\<And>i s ivs e. I i True s ivs \<Longrightarrow> i < length cd \<Longrightarrow>
                  \<bar>cd ! i\<bar> < silenceThreshold \<Longrightarrow> e = silenceEndLoop cd i \<Longrightarrow>
                  i < e \<Longrightarrow> e \<le> length cd \<Longrightarrow> m \<le> e - i \<Longrightarrow>
                  I e False s (ivs @ [(s, i)])"
    and skip: "\<And>i s ivs e. I i True s ivs \<Longrightarrow> i < length cd \<Longrightarrow>
                  \<bar>cd ! i\<bar> < silenceThreshold \<Longrightarrow> e = silenceEndLoop cd i \<Longrightarrow>
                  i < e \<Longrightarrow> e \<le> length cd \<Longrightarrow> \<not> m \<le> e - i \<Longrightarrow>
                  I e True s ivs"
    and other: "\<And>i b s ivs. I i b s ivs \<Longrightarrow> i < length cd \<Longrightarrow>
                  \<not> (\<not> b \<and> \<bar>cd ! i\<bar> > silenceThreshold) \<Longrightarrow>
                  \<not> (b \<and> \<bar>cd ! i\<bar> < silenceThreshold) \<Longrightarrow> I (Suc i) b s ivs"
  shows "case scanLoop cd m i b s ivs of (b', s', ivs') \<Rightarrow> I (length cd) b' s' ivs'"
  using assms
proof (induction cd m i b s ivs rule: scanLoop.induct)
  case (1 cd m i b s ivs)
  note inv = 1(5) and start = 1(7) and cut = 1(8) and skip = 1(9) and other = 1(10)
  show ?case
  proof (cases "i < length cd")
    case False
    with 1(6) have "i = length cd" by simp
    with inv show ?thesis
      by (subst scanLoop.simps) simp
  next
    case lt: True
    then have sle: "Suc i \<le> length cd" by simp
    show ?thesis
    proof (cases "\<not> b \<and> \<bar>cd ! i\<bar> > silenceThreshold")
      case True
      then have nb: "b = False" and loud: "\<bar>cd ! i\<bar> > silenceThreshold" by simp_all
      from inv have "I i False s ivs" unfolding nb .
      then have "I (Suc i) True i ivs" using lt loud by (rule start)
      then have IH: "case scanLoop cd m (Suc i) True i ivs of
                       (b', s', ivs') \<Rightarrow> I (length cd) b' s' ivs'"
        using sle start cut skip other by (rule 1(1) [OF lt True])
      have eq: "scanLoop cd m i b s ivs = scanLoop cd m (Suc i) True i ivs"
        using lt True by (subst scanLoop.simps) simp
      show ?thesis unfolding eq by (rule IH)
    next
      case nstart: False
      show ?thesis
      proof (cases "b \<and> \<bar>cd ! i\<bar> < silenceThreshold")
        case False
        from inv lt nstart False have "I (Suc i) b s ivs" by (rule other)
        then have IH: "case scanLoop cd m (Suc i) b s ivs of
                         (b', s', ivs') \<Rightarrow> I (length cd) b' s' ivs'"
          using sle start cut skip other by (rule 1(4) [OF lt nstart False])
        have eq: "scanLoop cd m i b s ivs = scanLoop cd m (Suc i) b s ivs"
          using lt nstart False by (subst scanLoop.simps) auto
        show ?thesis unfolding eq by (rule IH)
      next
        case sil: True
        then have b: "b = True" and quiet: "\<bar>cd ! i\<bar> < silenceThreshold" by simp_all
        from inv have invT: "I i True s ivs" unfolding b .
        have gt: "i < silenceEndLoop cd i"
          using lt quiet by (rule silenceEndLoop_gt)
        have le: "silenceEndLoop cd i \<le> length cd"
          using lt by (simp add: silenceEndLoop_le)
        from gt have suc: "Suc (silenceEndLoop cd i - 1) = silenceEndLoop cd i" by simp
        show ?thesis
        proof (cases "m \<le> silenceEndLoop cd i - i")
          case True
          from invT lt quiet refl gt le True
          have "I (silenceEndLoop cd i) False s (ivs @ [(s, i)])" by (rule cut)
          then have "I (Suc (silenceEndLoop cd i - 1)) False s (ivs @ [(s, i)])"
            unfolding suc .
          moreover have "Suc (silenceEndLoop cd i - 1) \<le> length cd"
            unfolding suc by (rule le)
          ultimately have IH: "case scanLoop cd m (Suc (silenceEndLoop cd i - 1)) False s
                  (ivs @ [(s, i)]) of (b', s', ivs') \<Rightarrow> I (length cd) b' s' ivs'"
            using start cut skip other by (rule 1(2) [OF lt nstart sil True])
          have eq: "scanLoop cd m i b s ivs =
                    scanLoop cd m (Suc (silenceEndLoop cd i - 1)) False s (ivs @ [(s, i)])"
            using lt nstart sil True by (subst scanLoop.simps) simp
          show ?thesis unfolding eq by (rule IH)
        next
          case False
          from invT lt quiet refl gt le False
          have "I (silenceEndLoop cd i) True s ivs" by (rule skip)
          then have "I (Suc (silenceEndLoop cd i - 1)) b s ivs"
            unfolding suc b .
          moreover have "Suc (silenceEndLoop cd i - 1) \<le> length cd"
            unfolding suc by (rule le)
          ultimately have IH: "case scanLoop cd m (Suc (silenceEndLoop cd i - 1)) b s ivs of
                  (b', s', ivs') \<Rightarrow> I (length cd) b' s' ivs'"
            using start cut skip other by (rule 1(3) [OF lt nstart sil False])
          have eq: "scanLoop cd m i b s ivs =
                    scanLoop cd m (Suc (silenceEndLoop cd i - 1)) b s ivs"
            using lt nstart sil False by (subst scanLoop.simps) simp
          show ?thesis unfolding eq by (rule IH)
        qed
      qed
    qed
  qed
qed

section \<open>Step 2: the intervals found and the buffer rebuilt\<close>

lemma wellFormed_append:
  "wellFormed n (ivs @ [(a, e)]) = (wellFormed n ivs \<and> a < e \<and> e \<le> n)"
  by (simp add: wellFormed_def)

lemma scanLoop_wellFormed:
  "case scanLoop cd m 0 False 0 [] of (b, s, ivs) \<Rightarrow>
     (b \<longrightarrow> s < length cd) \<and> wellFormed (length cd) ivs"
proof -
  let ?I = "\<lambda>i b s ivs. (b \<longrightarrow> s < i) \<and> i \<le> length cd \<and> wellFormed (length cd) ivs"
  have "case scanLoop cd m 0 False 0 [] of (b, s, ivs) \<Rightarrow> ?I (length cd) b s ivs"
  proof (rule scanLoop_invariant [where I = ?I])
    show "?I 0 False 0 []" by (simp add: wellFormed_def)
  qed (auto simp: wellFormed_append)
  then show ?thesis by (auto split: prod.splits)
qed

lemma soundIntervalsOf_wellFormed: "wellFormed (length cd) (soundIntervalsOf cd m)"
  using scanLoop_wellFormed [of cd m]
  by (auto simp: soundIntervalsOf_def wellFormed_append split: prod.splits)

lemma foldl_totalLength:
  "foldl (\<lambda>sum (start, stop). sum + (stop - start) + p * 2) (acc :: nat) ivs =
   acc + sum_list (map (\<lambda>(start, stop). (stop - start) + p * 2) ivs)"
  by (induction ivs arbitrary: acc) (auto split: prod.splits)

lemma totalLengthOf_sum:
  "totalLengthOf p ivs = sum_list (map (\<lambda>(start, stop). (stop - start) + p * 2) ivs)"
  by (simp add: totalLengthOf_def foldl_totalLength)

lemma totalLengthOf_Nil: "totalLengthOf p [] = 0"
  by (simp add: totalLengthOf_sum)

lemma totalLengthOf_Cons:
  "totalLengthOf p ((a, e) # ivs) = (e - a) + p * 2 + totalLengthOf p ivs"
  by (simp add: totalLengthOf_sum)

lemma totalLengthOf_append:
  "totalLengthOf p (ivs @ [(a, e)]) = totalLengthOf p ivs + (e - a) + p * 2"
  by (simp add: totalLengthOf_sum)

lemma length_sliceArray: "stop \<le> length cd \<Longrightarrow> length (sliceArray cd start stop) = stop - start"
  by (auto simp: sliceArray_def)

lemma length_paddedSegments:
  "wellFormed (length cd) ivs \<Longrightarrow> length (paddedSegments cd p ivs) = totalLengthOf p ivs"
  by (induction ivs) (auto simp: paddedSegments_def wellFormed_def totalLengthOf_Cons length_sliceArray totalLengthOf_Nil)

lemma fillIntervals_result:
  "wellFormed (length cd) ivs \<Longrightarrow> offset + totalLengthOf p ivs \<le> length new \<Longrightarrow>
   fillIntervals cd p ivs new offset =
     Inr (take offset new @ paddedSegments cd p ivs @ drop (offset + totalLengthOf p ivs) new)"
proof (induction ivs arbitrary: new offset)
  case Nil
  then show ?case by (simp add: paddedSegments_def totalLengthOf_Nil)
next
  case (Cons iv ivs)
  obtain a e where iv: "iv = (a, e)" by (cases iv)
  from Cons.prems iv have wf: "wellFormed (length cd) ivs" and ae: "a < e" "e \<le> length cd"
    by (simp_all add: wellFormed_def)
  define seg where "seg = sliceArray cd a e"
  have lseg: "length seg = e - a" using ae by (simp add: seg_def length_sliceArray)
  from Cons.prems(2) iv have fit: "offset + (e - a) + p * 2 + totalLengthOf p ivs \<le> length new"
    by (simp add: totalLengthOf_Cons)
  define d1 where "d1 = take offset new @ replicate p 0 @ drop (offset + p) new"
  define d2 where "d2 = take (offset + p) d1 @ seg @ drop (offset + p + length seg) d1"
  define d3 where "d3 = take (offset + p + length seg) d2 @ replicate p 0 @
                         drop (offset + p + length seg + p) d2"
  have l1: "length d1 = length new" using fit by (simp add: d1_def)
  have l2: "length d2 = length new" using fit lseg l1 by (simp add: d2_def)
  have l3: "length d3 = length new" using fit lseg l2 by (simp add: d3_def)
  have s1: "typedSet new (replicate p 0) offset = Inr d1"
    using fit by (simp add: typedSet_def d1_def)
  have s2: "typedSet d1 seg (offset + p) = Inr d2"
    using fit lseg l1 by (simp add: typedSet_def d2_def)
  have s3: "typedSet d2 (replicate p 0) (offset + p + length seg) = Inr d3"
    using fit lseg l2 by (simp add: typedSet_def d3_def)
  have d3eq: "take (offset + p + length seg + p) d3 =
              take offset new @ replicate p 0 @ seg @ replicate p 0"
    using fit lseg l1 l2 by (simp add: d3_def d2_def d1_def)
  have idx: "offset + p + length seg + p + totalLengthOf p ivs =
             offset + totalLengthOf p (iv # ivs)"
    using lseg by (simp add: iv totalLengthOf_Cons)
  have d3drop: "drop (offset + p + length seg + p + totalLengthOf p ivs) d3 =
                drop (offset + totalLengthOf p (iv # ivs)) new"
  proof -
    have "drop (offset + p + length seg + p + totalLengthOf p ivs) d3 =
          drop (offset + p + length seg + p + totalLengthOf p ivs) new"
      using fit lseg l1 l2 by (simp add: d3_def d2_def d1_def ac_simps)
    then show ?thesis by (simp only: idx)
  qed
  have "fillIntervals cd p (iv # ivs) new offset =
        fillIntervals cd p ivs d3 (offset + p + length seg + p)"
    by (simp add: iv andThen_def s1 s2 s3 seg_def [symmetric])
  also have "\<dots> = Inr (take (offset + p + length seg + p) d3 @ paddedSegments cd p ivs @
                        drop (offset + p + length seg + p + totalLengthOf p ivs) d3)"
    using fit lseg l3 by (intro Cons.IH wf) simp
  also have "\<dots> = Inr (take offset new @ paddedSegments cd p (iv # ivs) @
                        drop (offset + totalLengthOf p (iv # ivs)) new)"
    by (simp add: d3eq d3drop paddedSegments_def iv seg_def [symmetric])
  finally show ?case .
qed

lemma totalLengthOf_pos:
  "wellFormed n ivs \<Longrightarrow> ivs \<noteq> [] \<Longrightarrow> 0 < totalLengthOf p ivs"
  by (cases ivs) (auto simp: wellFormed_def totalLengthOf_Cons)

text \<open>What Step 2 returns, in one equation.\<close>

lemma removeSilenceStep_result:
  "removeSilenceStep w =
     (let sr = sampleRate (processedBuffer w);
          ivs = soundIntervalsOf (channelData w) (minSilenceSamples sr);
          out = (if ivs = [] then [0] else paddedSegments (channelData w) (paddingSamples sr) ivs)
      in Inr \<lparr>processedBuffer = \<lparr>sampleRate = sr, channels = [out]\<rparr>, channelData = out\<rparr>)"
proof -
  define sr where "sr = sampleRate (processedBuffer w)"
  define ivs where "ivs = soundIntervalsOf (channelData w) (minSilenceSamples sr)"
  define p where "p = paddingSamples sr"
  have wf: "wellFormed (length (channelData w)) ivs"
    unfolding ivs_def by (rule soundIntervalsOf_wellFormed)
  show ?thesis
  proof (cases "ivs = []")
    case True
    then show ?thesis
      by (simp add: removeSilenceStep_def Let_def sr_def [symmetric] ivs_def [symmetric]
          createBuffer_def getChannelData_def andThen_def)
  next
    case False
    then have pos: "0 < totalLengthOf p ivs" using wf by (simp add: totalLengthOf_pos)
    have fill: "fillIntervals (channelData w) p ivs (replicate (totalLengthOf p ivs) 0) 0 =
                Inr (paddedSegments (channelData w) p ivs)"
      using fillIntervals_result [OF wf, of 0 p "replicate (totalLengthOf p ivs) 0"] by simp
    from False pos show ?thesis
      by (simp add: removeSilenceStep_def Let_def sr_def [symmetric] ivs_def [symmetric]
          p_def [symmetric] createBuffer_def getChannelData_def andThen_def fill)
  qed
qed

lemma silenceEndLoop_run: "silenceEndLoop cd i = i + silentRunFrom cd i"
proof (induction cd i rule: silenceEndLoop.induct)
  case (1 cd i)
  show ?case
  proof (cases "i < length cd \<and> \<bar>cd ! i\<bar> < silenceThreshold")
    case True
    then have "drop i cd = cd ! i # drop (Suc i) cd" by (simp add: Cons_nth_drop_Suc)
    with True have "silentRunFrom cd i = Suc (silentRunFrom cd (Suc i))"
      by (simp add: silentRunFrom_def)
    moreover from True 1 have "silenceEndLoop cd i = Suc i + silentRunFrom cd (Suc i)"
      by (subst silenceEndLoop.simps) simp
    ultimately show ?thesis by simp
  next
    case False
    then have "silentRunFrom cd i = 0"
      by (cases "i < length cd") (simp_all add: silentRunFrom_def Cons_nth_drop_Suc [symmetric])
    with False show ?thesis by (subst silenceEndLoop.simps) auto
  qed
qed

lemma before_firstSound: "i < firstSound cd \<Longrightarrow> \<not> \<bar>cd ! i\<bar> > silenceThreshold"
  unfolding firstSound_def using takeWhile_nth [of i "\<lambda>x. \<not> \<bar>x\<bar> > silenceThreshold" cd]
    nth_mem [of i "takeWhile (\<lambda>x. \<not> \<bar>x\<bar> > silenceThreshold) cd"] set_takeWhileD
  by fastforce

lemma firstSound_less:
  "\<exists>x\<in>set cd. \<bar>x\<bar> > silenceThreshold \<Longrightarrow> firstSound cd < length cd"
proof (rule ccontr)
  let ?P = "\<lambda>x. \<not> \<bar>x\<bar> > silenceThreshold"
  assume sound: "\<exists>x\<in>set cd. \<bar>x\<bar> > silenceThreshold" and "\<not> firstSound cd < length cd"
  then have "length (takeWhile ?P cd) = length cd"
    using length_takeWhile_le [of ?P cd] by (simp add: firstSound_def)
  then have "takeWhile ?P cd = cd"
    using takeWhile_eq_take [of ?P cd] by simp
  then have "\<forall>x\<in>set cd. ?P x" by (simp only: takeWhile_eq_all_conv)
  with sound show False by auto
qed

lemma at_firstSound:
  "firstSound cd < length cd \<Longrightarrow> \<bar>cd ! firstSound cd\<bar> > silenceThreshold"
  unfolding firstSound_def
  using nth_length_takeWhile [of "\<lambda>x. \<not> \<bar>x\<bar> > silenceThreshold" cd] by simp

lemma soundIntervalsOf_no_cut:
  assumes sound: "\<exists>x\<in>set cd. \<bar>x\<bar> > silenceThreshold"
    and short: "\<forall>i<length cd. silentRunFrom cd i < m"
  shows "soundIntervalsOf cd m = [(firstSound cd, length cd)]"
proof -
  let ?fs = "firstSound cd"
  let ?I = "\<lambda>i b s ivs. ivs = [] \<and> (if b then s = ?fs \<and> ?fs < i else i \<le> ?fs)"
  have fs: "?fs < length cd" using sound by (rule firstSound_less)
  have "case scanLoop cd m 0 False 0 [] of (b, s, ivs) \<Rightarrow> ?I (length cd) b s ivs"
  proof (rule scanLoop_invariant [where I = ?I])
    show "?I 0 False 0 []" by simp
  next
    show "0 \<le> length cd" by simp
  next
    fix i s ivs
    assume "?I i False s ivs" "i < length cd" "\<bar>cd ! i\<bar> > silenceThreshold"
    then show "?I (Suc i) True i ivs"
      using before_firstSound [of i cd] by (cases "i < ?fs") auto
  next
    fix i s ivs e
    assume "i < length cd" "e = silenceEndLoop cd i" "m \<le> e - i"
    with short have False by (auto simp: silenceEndLoop_run)
    then show "?I e False s (ivs @ [(s, i)])" ..
  next
    fix i s ivs e
    assume "?I i True s ivs" "i < e"
    then show "?I e True s ivs" by auto
  next
    fix i b s ivs
    assume "?I i b s ivs" "i < length cd"
      "\<not> (\<not> b \<and> \<bar>cd ! i\<bar> > silenceThreshold)" "\<not> (b \<and> \<bar>cd ! i\<bar> < silenceThreshold)"
    then show "?I (Suc i) b s ivs"
      using at_firstSound [OF fs] by (cases b; cases "i = ?fs") auto
  qed
  with fs show ?thesis
    by (auto simp: soundIntervalsOf_def split: prod.splits if_splits)
qed

lemma soundIntervalsOf_all_silent:
  assumes "\<forall>x\<in>set cd. \<bar>x\<bar> \<le> silenceThreshold"
  shows "soundIntervalsOf cd m = []"
proof -
  let ?I = "\<lambda>(i::nat) b (s::nat) (ivs :: (nat \<times> nat) list). \<not> b \<and> ivs = []"
  have "case scanLoop cd m 0 False 0 [] of (b, s, ivs) \<Rightarrow> ?I (length cd) b s ivs"
  proof (rule scanLoop_invariant [where I = ?I])
    fix i s ivs
    assume "i < length cd" "\<bar>cd ! i\<bar> > silenceThreshold"
    with assms nth_mem [of i cd] show "?I (Suc i) True i ivs" by fastforce
  qed auto
  then show ?thesis by (auto simp: soundIntervalsOf_def split: prod.splits)
qed

lemma padding_le_minSilence: "2 * paddingSamples sr \<le> minSilenceSamples sr"
proof -
  have "real_of_int (2 * \<lfloor>paddingDuration * real sr\<rfloor>) \<le> minSilenceDuration * real sr"
  proof -
    have "real_of_int \<lfloor>paddingDuration * real sr\<rfloor> \<le> paddingDuration * real sr" by simp
    then show ?thesis by (simp add: paddingDuration_def minSilenceDuration_def)
  qed
  then have "2 * \<lfloor>paddingDuration * real sr\<rfloor> \<le> \<lfloor>minSilenceDuration * real sr\<rfloor>"
    by (simp only: le_floor_iff)
  moreover have "0 \<le> \<lfloor>paddingDuration * real sr\<rfloor>" by (simp add: paddingDuration_def)
  ultimately show ?thesis by (simp add: paddingSamples_def minSilenceSamples_def)
qed

lemma scanLoop_total:
  assumes "2 * p \<le> m"
  shows "totalLengthOf p (soundIntervalsOf cd m) \<le> length cd + 2 * p"
proof -
  let ?I = "\<lambda>i b s ivs. totalLengthOf p ivs \<le> (if b then s else i) \<and> (b \<longrightarrow> s \<le> i)"
  have "case scanLoop cd m 0 False 0 [] of (b, s, ivs) \<Rightarrow> ?I (length cd) b s ivs"
  proof (rule scanLoop_invariant [where I = ?I])
    show "?I 0 False 0 []" by (simp add: totalLengthOf_Nil)
  next
    fix i s ivs e
    assume "?I i True s ivs" "i < e" "m \<le> e - i"
    with assms show "?I e False s (ivs @ [(s, i)])"
      by (simp add: totalLengthOf_append) arith
  qed auto
  then show ?thesis
    by (auto simp: soundIntervalsOf_def totalLengthOf_append split: prod.splits)
qed

section \<open>Step 2: what the remove-silence stage returns\<close>

lemma minSilenceSamples_16000: "minSilenceSamples 16000 = 4800"
  by (simp add: minSilenceSamples_def minSilenceDuration_def)

lemma paddingSamples_16000: "paddingSamples 16000 = 1600"
  by (simp add: paddingSamples_def paddingDuration_def)

lemma intervals_loud_quiet: "soundIntervalsOf [1 / 2, 0] 4800 = [(0, 2)]"
  by (simp add: soundIntervalsOf_def scanLoop.simps silenceEndLoop.simps silenceThreshold_def)

lemma intervals_loud: "soundIntervalsOf [1 / 2] 4800 = [(0, 1)]"
  by (simp add: soundIntervalsOf_def scanLoop.simps silenceEndLoop.simps silenceThreshold_def)

text \<open>
  Claim C4, as the code has it. A buffer with a sample above the silence threshold in
  which every run of samples below the threshold is shorter than the minimum number of
  silent samples yields one interval, from the first sample above the threshold to the
  end of the buffer. Step 2 returns the samples of that interval, unchanged and in
  order, between the padding zeros before and after; the samples before the first
  sound are not kept.
\<close>

theorem removeSilence_no_qualifying_run:
  assumes sound: "\<exists>x\<in>set (channelData w). \<bar>x\<bar> > silenceThreshold"
    and short: "\<forall>i<length (channelData w).
                  silentRunFrom (channelData w) i
                    < minSilenceSamples (sampleRate (processedBuffer w))"
  shows "removeSilenceStep w =
           Inr (monoWork (sampleRate (processedBuffer w))
                  (replicate (paddingSamples (sampleRate (processedBuffer w))) 0 @
                   drop (firstSound (channelData w)) (channelData w) @
                   replicate (paddingSamples (sampleRate (processedBuffer w))) 0))"
proof -
  have "soundIntervalsOf (channelData w) (minSilenceSamples (sampleRate (processedBuffer w))) =
        [(firstSound (channelData w), length (channelData w))]"
    using sound short by (rule soundIntervalsOf_no_cut)
  then show ?thesis
    by (simp add: removeSilenceStep_result Let_def paddedSegments_def sliceArray_def monoWork_def)
qed

text \<open>The buffer 0, 1/2, 0 at 16 kHz: 1600 zeros, then 1/2 and 0, then 1600 zeros.\<close>

theorem removeSilence_no_qualifying_run_witness:
  "\<bar>channelData (monoWork 16000 [0, 1 / 2, 0]) ! 1\<bar> > silenceThreshold \<and>
   list_all (\<lambda>i. silentRunFrom [0, 1 / 2, 0] i < minSilenceSamples 16000) [0, 1, 2] \<and>
   removeSilenceStep (monoWork 16000 [0, 1 / 2, 0]) =
     Inr (monoWork 16000 (replicate 1600 0 @ [1 / 2, 0] @ replicate 1600 0))"
proof -
  let ?w = "monoWork 16000 [0, 1 / 2, 0]"
  have short: "list_all (\<lambda>i. silentRunFrom [0, 1 / 2, 0] i < minSilenceSamples 16000) [0, 1, 2]"
    by (simp add: silentRunFrom_def minSilenceSamples_16000 silenceThreshold_def)
  have h1: "\<exists>x\<in>set (channelData ?w). \<bar>x\<bar> > silenceThreshold"
    by (simp add: monoWork_def silenceThreshold_def)
  have h2: "\<forall>i<length (channelData ?w).
              silentRunFrom (channelData ?w) i < minSilenceSamples (sampleRate (processedBuffer ?w))"
    using short by (simp add: monoWork_def less_Suc_eq numeral_3_eq_3 numeral_2_eq_2)
  have fs: "firstSound [0, 1 / 2, 0] = 1"
    by (simp add: firstSound_def silenceThreshold_def)
  from removeSilence_no_qualifying_run [OF h1 h2] short show ?thesis
    by (simp add: monoWork_def paddingSamples_16000 fs silenceThreshold_def)
qed

text \<open>
  Claim C4 as worded (same length, same samples) fails on the one-sample buffer 1/2
  at 16 kHz: it has a sound sample and no silent run, and Step 2 returns 3201 samples.
\<close>

theorem removeSilence_unchanged_counterexample:
  "\<bar>channelData (monoWork 16000 [1 / 2]) ! 0\<bar> > silenceThreshold \<and>
   silentRunFrom (channelData (monoWork 16000 [1 / 2])) 0 < minSilenceSamples 16000 \<and>
   removeSilenceStep (monoWork 16000 [1 / 2]) =
     Inr (monoWork 16000 (replicate 1600 0 @ [1 / 2] @ replicate 1600 0)) \<and>
   length (replicate 1600 (0::real) @ [1 / 2] @ replicate 1600 0) = 3201 \<and>
   length (channelData (monoWork 16000 [1 / 2])) = 1"
  by (simp add: removeSilenceStep_result Let_def monoWork_def minSilenceSamples_16000
      paddingSamples_16000 intervals_loud paddedSegments_def sliceArray_def
      silentRunFrom_def silenceThreshold_def)

text \<open>
  Claim C5, as the code has it. For a buffer with a sample below the silence
  threshold, Step 2 returns a buffer of at most the input's number of samples plus
  two paddings: a removed run is at least as long as the two paddings of the interval
  it closes, so only the padding of one interval can come on top.
\<close>

theorem removeSilence_length_bound:
  assumes "\<exists>x\<in>set (channelData w). \<bar>x\<bar> < silenceThreshold"
  shows "\<exists>w'. removeSilenceStep w = Inr w' \<and>
              length (channelData w')
                \<le> length (channelData w) + 2 * paddingSamples (sampleRate (processedBuffer w))"
proof -
  define sr where "sr = sampleRate (processedBuffer w)"
  define ivs where "ivs = soundIntervalsOf (channelData w) (minSilenceSamples sr)"
  have wf: "wellFormed (length (channelData w)) ivs"
    unfolding ivs_def by (rule soundIntervalsOf_wellFormed)
  have total: "totalLengthOf (paddingSamples sr) ivs \<le> length (channelData w) + 2 * paddingSamples sr"
    unfolding ivs_def by (rule scanLoop_total) (rule padding_le_minSilence)
  from assms have ne: "1 \<le> length (channelData w)"
    by (cases "channelData w") auto
  show ?thesis
    using wf total ne
    by (simp add: removeSilenceStep_result Let_def sr_def [symmetric] ivs_def [symmetric]
        length_paddedSegments)
qed

text \<open>The buffer 1/2, 0 at 16 kHz, where the bound 2 + 3200 is reached.\<close>

theorem removeSilence_length_bound_witness:
  "\<bar>channelData (monoWork 16000 [1 / 2, 0]) ! 1\<bar> < silenceThreshold \<and>
   (\<exists>w'. removeSilenceStep (monoWork 16000 [1 / 2, 0]) = Inr w' \<and>
         length (channelData w') \<le> 2 + 2 * 1600)"
proof -
  let ?w = "monoWork 16000 [1 / 2, 0]"
  have h: "\<exists>x\<in>set (channelData ?w). \<bar>x\<bar> < silenceThreshold"
    by (simp add: monoWork_def silenceThreshold_def)
  from removeSilence_length_bound [OF h] show ?thesis
    by (simp add: monoWork_def paddingSamples_16000 silenceThreshold_def)
qed

text \<open>
  Claim C5 as worded (output no longer than input) fails on the buffer 1/2, 0 at
  16 kHz: it contains a sample below the threshold, and Step 2 returns 3202 samples.
\<close>

theorem removeSilence_not_shorter_counterexample:
  "\<bar>channelData (monoWork 16000 [1 / 2, 0]) ! 1\<bar> < silenceThreshold \<and>
   removeSilenceStep (monoWork 16000 [1 / 2, 0]) =
     Inr (monoWork 16000 (replicate 1600 0 @ [1 / 2, 0] @ replicate 1600 0)) \<and>
   length (replicate 1600 (0::real) @ [1 / 2, 0] @ replicate 1600 0) = 3202 \<and>
   length (channelData (monoWork 16000 [1 / 2, 0])) = 2"
  by (simp add: removeSilenceStep_result Let_def monoWork_def minSilenceSamples_16000
      paddingSamples_16000 intervals_loud_quiet paddedSegments_def sliceArray_def
      silenceThreshold_def)

text \<open>
  Claim C6. Step 2 never throws and never returns an empty buffer: the result has at
  least one sample, and it is the channel of the new buffer. When no sound interval is
  found the result is the single sample 0; that is the case whenever no sample is above
  the silence threshold, so for an empty and for an all-silent buffer.
\<close>

theorem removeSilence_never_empty:
  "\<exists>w'. removeSilenceStep w = Inr w' \<and>
        1 \<le> length (channelData w') \<and>
        channels (processedBuffer w') = [channelData w'] \<and>
        (soundIntervalsOf (channelData w) (minSilenceSamples (sampleRate (processedBuffer w))) = []
           \<longrightarrow> channelData w' = [0]) \<and>
        ((\<forall>x\<in>set (channelData w). \<bar>x\<bar> \<le> silenceThreshold) \<longrightarrow> channelData w' = [0])"
proof -
  define sr where "sr = sampleRate (processedBuffer w)"
  define ivs where "ivs = soundIntervalsOf (channelData w) (minSilenceSamples sr)"
  have wf: "wellFormed (length (channelData w)) ivs"
    unfolding ivs_def by (rule soundIntervalsOf_wellFormed)
  have pos: "ivs \<noteq> [] \<Longrightarrow> 1 \<le> length (paddedSegments (channelData w) (paddingSamples sr) ivs)"
    using wf totalLengthOf_pos [OF wf, of "paddingSamples sr"]
    by (simp add: length_paddedSegments)
  have silent: "(\<forall>x\<in>set (channelData w). \<bar>x\<bar> \<le> silenceThreshold) \<Longrightarrow> ivs = []"
    unfolding ivs_def by (rule soundIntervalsOf_all_silent)
  show ?thesis
    using pos silent
    by (auto simp: removeSilenceStep_result Let_def sr_def [symmetric] ivs_def [symmetric])
qed

text \<open>The all-silent buffer 0, 1/200 at 16 kHz.\<close>

theorem removeSilence_never_empty_witness:
  "list_all (\<lambda>x. \<bar>x\<bar> \<le> silenceThreshold) (channelData (monoWork 16000 [0, 1 / 200])) \<and>
   (\<exists>w'. removeSilenceStep (monoWork 16000 [0, 1 / 200]) = Inr w' \<and> channelData w' = [0] \<and>
         channels (processedBuffer w') = [[0]])"
proof -
  let ?w = "monoWork 16000 [0, 1 / 200]"
  have h: "list_all (\<lambda>x. \<bar>x\<bar> \<le> silenceThreshold) (channelData ?w)"
    by (simp add: monoWork_def silenceThreshold_def)
  then have "\<forall>x\<in>set (channelData ?w). \<bar>x\<bar> \<le> silenceThreshold"
    by (simp add: list_all_iff)
  with removeSilence_never_empty [of ?w] h show ?thesis by auto
qed

section \<open>Step 3: the noise gate\<close>

lemma noiseGateLoop_map:
  "i \<le> length cd \<Longrightarrow> noiseGateLoop rnd cd i = take i cd @ map (gateSample rnd) (drop i cd)"
proof (induction rnd cd i rule: noiseGateLoop.induct)
  case (1 rnd cd i)
  show ?case
  proof (cases "i < length cd")
    case False
    with 1(2) show ?thesis by (subst noiseGateLoop.simps) simp
  next
    case True
    define cd' where "cd' = (if \<bar>cd ! i\<bar> < noiseThreshold
                             then cd[i := rnd (cd ! i * reductionAmount)] else cd)"
    have cd': "cd' = cd[i := gateSample rnd (cd ! i)]"
      by (simp add: cd'_def gateSample_def)
    have len: "length cd' = length cd" by (simp add: cd')
    from True have "noiseGateLoop rnd cd i = noiseGateLoop rnd cd' (Suc i)"
      by (subst noiseGateLoop.simps) (simp add: cd'_def)
    also have "\<dots> = take (Suc i) cd' @ map (gateSample rnd) (drop (Suc i) cd')"
      using 1(1) [OF True] True len unfolding cd'_def by simp
    also have "take (Suc i) cd' = take i cd @ [gateSample rnd (cd ! i)]"
      using True by (simp add: cd' take_Suc_conv_app_nth)
    also have "drop (Suc i) cd' = drop (Suc i) cd" by (simp add: cd')
    also have "(take i cd @ [gateSample rnd (cd ! i)]) @ map (gateSample rnd) (drop (Suc i) cd) =
               take i cd @ map (gateSample rnd) (drop i cd)"
      using True by (simp add: Cons_nth_drop_Suc [symmetric])
    finally show ?thesis .
  qed
qed

lemma noiseReductionStep_mono:
  "noiseReductionStep rnd (monoWork sr cd) = monoWork sr (map (gateSample rnd) cd)"
  by (simp add: noiseReductionStep_def monoWork_def noiseGateLoop_map Let_def)

lemma gateSample_le:
  assumes "mono rnd" "rnd 0 = 0" "rnd x = x"
  shows "\<bar>gateSample rnd x\<bar> \<le> \<bar>x\<bar>"
proof (cases "\<bar>x\<bar> < noiseThreshold")
  case False
  then show ?thesis by (simp add: gateSample_def)
next
  case True
  show ?thesis
  proof (cases "0 \<le> x")
    case True
    then have "0 \<le> x * reductionAmount" "x * reductionAmount \<le> x"
      by (simp_all add: reductionAmount_def)
    then have "rnd 0 \<le> rnd (x * reductionAmount)" "rnd (x * reductionAmount) \<le> rnd x"
      using assms(1) by (auto dest: monoD)
    with assms True \<open>\<bar>x\<bar> < noiseThreshold\<close> show ?thesis by (simp add: gateSample_def)
  next
    case False
    then have "x * reductionAmount \<le> 0" "x \<le> x * reductionAmount"
      by (simp_all add: reductionAmount_def mult_le_0_iff)
    then have "rnd (x * reductionAmount) \<le> rnd 0" "rnd x \<le> rnd (x * reductionAmount)"
      using assms(1) by (auto dest: monoD)
    with assms False \<open>\<bar>x\<bar> < noiseThreshold\<close> show ?thesis by (simp add: gateSample_def)
  qed
qed

text \<open>
  Claim C8. Step 3 on a mono working state returns a mono working state with as many
  samples. A sample below the noise threshold 0.02 is replaced by the sample times the
  reduction factor 0.2, stored as a 32-bit float; every other sample is unchanged. No
  sample grows in absolute value, for every rounding that is monotone and leaves zero
  and the samples of the buffer (32-bit floats already) as they are.
\<close>

theorem noiseGate_attenuates:
  fixes rnd :: "real \<Rightarrow> real" and cd :: "real list" and sr i :: nat
  defines "out \<equiv> channelData (noiseReductionStep rnd (monoWork sr cd))"
  assumes "mono rnd" "rnd 0 = 0" "\<forall>x\<in>set cd. rnd x = x" "i < length cd"
  shows "noiseReductionStep rnd (monoWork sr cd) = monoWork sr out \<and>
         length out = length cd \<and>
         \<bar>out ! i\<bar> \<le> \<bar>cd ! i\<bar> \<and>
         out ! i = (if \<bar>cd ! i\<bar> < noiseThreshold then rnd (cd ! i * reductionAmount)
                    else cd ! i)"
proof -
  have out: "out = map (gateSample rnd) cd"
    unfolding out_def noiseReductionStep_mono by (simp add: monoWork_def)
  from assms(4,5) have "rnd (cd ! i) = cd ! i" by simp
  with assms(2,3) have "\<bar>gateSample rnd (cd ! i)\<bar> \<le> \<bar>cd ! i\<bar>" by (rule gateSample_le)
  with assms(5) show ?thesis
    unfolding out by (simp add: noiseReductionStep_mono gateSample_def)
qed

text \<open>
  The buffer 1/100, -1/2 with exact arithmetic: the first sample becomes 1/500.
\<close>

theorem noiseGate_attenuates_witness:
  "list_all (\<lambda>x. (\<lambda>y. y) x = x) [1 / 100, - 1 / 2 :: real] \<and>
   noiseReductionStep (\<lambda>y. y) (monoWork 16000 [1 / 100, - 1 / 2]) =
     monoWork 16000 (channelData (noiseReductionStep (\<lambda>y. y) (monoWork 16000 [1 / 100, - 1 / 2]))) \<and>
   channelData (noiseReductionStep (\<lambda>y. y) (monoWork 16000 [1 / 100, - 1 / 2])) ! 0 = 1 / 500 \<and>
   \<bar>channelData (noiseReductionStep (\<lambda>y. y) (monoWork 16000 [1 / 100, - 1 / 2])) ! 0\<bar>
     \<le> \<bar>[1 / 100, - 1 / 2 :: real] ! 0\<bar>"
proof -
  have m: "mono (\<lambda>y::real. y)" by (simp add: mono_def)
  have z: "(\<lambda>y::real. y) 0 = 0" by simp
  have r: "\<forall>x\<in>set [1 / 100, - 1 / 2 :: real]. (\<lambda>y. y) x = x" by simp
  have i: "0 < length [1 / 100, - 1 / 2 :: real]" by simp
  from noiseGate_attenuates [OF m z r i, of 16000] show ?thesis
    by (simp add: noiseThreshold_def reductionAmount_def)
qed

section \<open>Step 4: the normalizer\<close>

lemma foldl_max_ge: "a \<le> foldl (\<lambda>mx val. max mx \<bar>val\<bar>) (a::real) xs"
proof (induction xs arbitrary: a)
  case Nil
  show ?case by simp
next
  case (Cons x xs)
  have "a \<le> max a \<bar>x\<bar>" by simp
  also have "\<dots> \<le> foldl (\<lambda>mx val. max mx \<bar>val\<bar>) (max a \<bar>x\<bar>) xs" by (rule Cons.IH)
  finally show ?case by simp
qed

lemma foldl_max_mem:
  "x \<in> set xs \<Longrightarrow> \<bar>x\<bar> \<le> foldl (\<lambda>mx val. max mx \<bar>val\<bar>) (a::real) xs"
proof (induction xs arbitrary: a)
  case Nil
  then show ?case by simp
next
  case (Cons y ys)
  show ?case
  proof (cases "x = y")
    case True
    have "\<bar>x\<bar> \<le> max a \<bar>y\<bar>" using True by simp
    also have "\<dots> \<le> foldl (\<lambda>mx val. max mx \<bar>val\<bar>) (max a \<bar>y\<bar>) ys" by (rule foldl_max_ge)
    finally show ?thesis by simp
  next
    case False
    with Cons.prems have "x \<in> set ys" by simp
    then show ?thesis by (simp add: Cons.IH)
  qed
qed

lemma foldl_max_le:
  "a \<le> B \<Longrightarrow> \<forall>x\<in>set xs. \<bar>x\<bar> \<le> B \<Longrightarrow> foldl (\<lambda>mx val. max mx \<bar>val\<bar>) (a::real) xs \<le> B"
  by (induction xs arbitrary: a) simp_all

lemma foldl_max_attained:
  "foldl (\<lambda>mx val. max mx \<bar>val\<bar>) (a::real) xs = a \<or>
   (\<exists>x\<in>set xs. \<bar>x\<bar> = foldl (\<lambda>mx val. max mx \<bar>val\<bar>) a xs)"
proof (induction xs arbitrary: a)
  case Nil
  show ?case by simp
next
  case (Cons y ys)
  from Cons.IH [of "max a \<bar>y\<bar>"] show ?case
    by (auto simp: max_def split: if_splits)
qed

lemma peakOf_ge: "x \<in> set cd \<Longrightarrow> \<bar>x\<bar> \<le> peakOf cd"
  unfolding peakOf_def by (rule foldl_max_mem)

lemma peakOf_le: "0 \<le> B \<Longrightarrow> \<forall>x\<in>set cd. \<bar>x\<bar> \<le> B \<Longrightarrow> peakOf cd \<le> B"
  unfolding peakOf_def by (rule foldl_max_le)

lemma peakOf_attained: "0 < peakOf cd \<Longrightarrow> \<exists>x\<in>set cd. \<bar>x\<bar> = peakOf cd"
  unfolding peakOf_def using foldl_max_attained [of 0 cd] by auto

lemma peakOf_Nil: "peakOf [] = 0"
  by (simp add: peakOf_def)

lemma map_frames: "map (\<lambda>k. if k < length cd then f (cd ! k) else 0) [0..<length cd] = map f cd"
  by (rule nth_equalityI) simp_all

lemma normalizeVolumeStep_mono:
  "normalizeVolumeStep rnd (monoWork sr cd) =
     Inr (if peakOf cd > 1 / 1000
          then \<lparr>processedBuffer = \<lparr>sampleRate = sr, channels = [applyGain rnd (peakOf cd) cd]\<rparr>,
                channelData = cd\<rparr>
          else monoWork sr cd)"
proof (cases "peakOf cd > 1 / 1000")
  case False
  then show ?thesis by (simp add: normalizeVolumeStep_def monoWork_def Let_def)
next
  case True
  then have "cd \<noteq> []" by (auto simp: peakOf_Nil)
  with True show ?thesis
    using map_frames [of cd "\<lambda>x. rnd (x * rnd (targetPeak / peakOf cd))"]
    by (simp add: normalizeVolumeStep_def monoWork_def Let_def renderGain_def bufferLength_def
        getChannelData_def andThen_def applyGain_def)
qed

lemma peakOf_applyGain_bounds:
  fixes rnd :: "real \<Rightarrow> real" and cd :: "real list" and e d :: real
  defines "g \<equiv> targetPeak / peakOf cd"
  assumes gain: "\<bar>rnd g - g\<bar> \<le> \<bar>g\<bar> * e"
    and prod: "\<forall>x\<in>set cd. \<bar>rnd (x * rnd g) - x * rnd g\<bar> \<le> \<bar>x * rnd g\<bar> * e + d"
    and e: "0 \<le> e" "e \<le> 1" and d: "0 \<le> d"
    and pk: "0 < peakOf cd"
  shows "targetPeak * (1 - e) * (1 - e) - d \<le> peakOf (applyGain rnd (peakOf cd) cd)"
    and "peakOf (applyGain rnd (peakOf cd) cd) \<le> targetPeak * (1 + e) * (1 + e) + d"
proof -
  define M where "M = peakOf cd"
  have M: "0 < M" using pk by (simp add: M_def)
  have g: "0 < g" using M by (simp add: g_def M_def targetPeak_def)
  have Mg: "M * g = targetPeak" using M by (simp add: g_def M_def)
  have tp: "0 \<le> targetPeak" by (simp add: targetPeak_def)
  have glo: "g * (1 - e) \<le> \<bar>rnd g\<bar>" and ghi: "\<bar>rnd g\<bar> \<le> g * (1 + e)"
    using gain g by (simp_all add: algebra_simps abs_le_iff) (linarith+)
  from pk obtain xm where xm: "xm \<in> set cd" "\<bar>xm\<bar> = M"
    using peakOf_attained [of cd] by (auto simp: M_def)
  have upper: "\<bar>rnd (x * rnd g)\<bar> \<le> targetPeak * (1 + e) * (1 + e) + d" if "x \<in> set cd" for x
  proof -
    from that have xM: "\<bar>x\<bar> \<le> M" unfolding M_def by (rule peakOf_ge)
    have "\<bar>x * rnd g\<bar> = \<bar>x\<bar> * \<bar>rnd g\<bar>" by (simp add: abs_mult)
    also have "\<dots> \<le> M * (g * (1 + e))"
      using xM ghi M by (intro mult_mono) simp_all
    also have "\<dots> = targetPeak * (1 + e)" using Mg by (simp add: mult.assoc [symmetric])
    finally have "\<bar>x * rnd g\<bar> \<le> targetPeak * (1 + e)" .
    then have "\<bar>x * rnd g\<bar> * (1 + e) \<le> targetPeak * (1 + e) * (1 + e)"
      using e by (intro mult_right_mono) simp_all
    moreover from that prod
    have "\<bar>rnd (x * rnd g) - x * rnd g\<bar> \<le> \<bar>x * rnd g\<bar> * e + d" by simp
    then have "\<bar>rnd (x * rnd g)\<bar> \<le> \<bar>x * rnd g\<bar> * (1 + e) + d"
      by (simp add: algebra_simps abs_le_iff) linarith
    ultimately show ?thesis by linarith
  qed
  have "0 \<le> targetPeak * (1 + e) * (1 + e) + d" using tp e d by simp
  then show "peakOf (applyGain rnd (peakOf cd) cd) \<le> targetPeak * (1 + e) * (1 + e) + d"
    using upper by (intro peakOf_le) (auto simp: applyGain_def g_def)
  have "targetPeak * (1 - e) = M * (g * (1 - e))" using Mg by (simp add: mult.assoc [symmetric])
  also have "\<dots> \<le> M * \<bar>rnd g\<bar>" using glo M by (intro mult_left_mono) simp_all
  also have "\<dots> = \<bar>xm * rnd g\<bar>" using xm by (simp add: abs_mult)
  finally have "targetPeak * (1 - e) \<le> \<bar>xm * rnd g\<bar>" .
  then have "targetPeak * (1 - e) * (1 - e) \<le> \<bar>xm * rnd g\<bar> * (1 - e)"
    using e by (intro mult_right_mono) simp_all
  moreover from xm(1) prod
  have "\<bar>rnd (xm * rnd g) - xm * rnd g\<bar> \<le> \<bar>xm * rnd g\<bar> * e + d" by simp
  then have "\<bar>xm * rnd g\<bar> * (1 - e) - d \<le> \<bar>rnd (xm * rnd g)\<bar>"
    by (simp add: algebra_simps abs_le_iff) linarith
  moreover have "\<bar>rnd (xm * rnd g)\<bar> \<le> peakOf (applyGain rnd (peakOf cd) cd)"
    using xm by (intro peakOf_ge) (auto simp: applyGain_def g_def)
  ultimately show "targetPeak * (1 - e) * (1 - e) - d \<le> peakOf (applyGain rnd (peakOf cd) cd)"
    by linarith
qed

text \<open>
  Claim C7. When the peak of the buffer is above the floor 0.001, Step 4 replaces the
  buffer by its rendering through the gain \<open>targetPeak / max\<close>. The peak of the
  result is within 1e-4 of the target 0.95 whenever the rounding is accurate where the
  step uses it: a relative error of at most \<open>1 / 2 ^ 23\<close> at the gain value, and at
  the product of each sample with the rounded gain the same relative error plus
  \<open>1 / 2 ^ 149\<close>, the smallest positive 32-bit float, for a product that underflows.
  Exact arithmetic is such a rounding, and so is rounding to the nearest 32-bit float
  as long as the gain is a normal float. When the peak is at or below the floor, the
  state is returned as it is, whatever the rounding.
\<close>

theorem normalize_reaches_target:
  fixes rnd :: "real \<Rightarrow> real" and cd :: "real list" and sr :: nat
  defines "g \<equiv> targetPeak / peakOf cd"
  defines "out \<equiv> applyGain rnd (peakOf cd) cd"
  shows "(peakOf cd > 1 / 1000 \<longrightarrow>
            normalizeVolumeStep rnd (monoWork sr cd) =
              Inr \<lparr>processedBuffer = \<lparr>sampleRate = sr, channels = [out]\<rparr>, channelData = cd\<rparr> \<and>
            length out = length cd \<and>
            (\<bar>rnd g - g\<bar> \<le> \<bar>g\<bar> / 2 ^ 23 \<and>
             (\<forall>x\<in>set cd. \<bar>rnd (x * rnd g) - x * rnd g\<bar>
                             \<le> \<bar>x * rnd g\<bar> / 2 ^ 23 + 1 / 2 ^ 149) \<longrightarrow>
             \<bar>peakOf out - targetPeak\<bar> \<le> 1 / 10000)) \<and>
         (peakOf cd \<le> 1 / 1000 \<longrightarrow>
            normalizeVolumeStep rnd (monoWork sr cd) = Inr (monoWork sr cd))"
proof (intro conjI impI)
  assume "peakOf cd \<le> 1 / 1000"
  then show "normalizeVolumeStep rnd (monoWork sr cd) = Inr (monoWork sr cd)"
    by (simp add: normalizeVolumeStep_mono)
next
  assume pk: "peakOf cd > 1 / 1000"
  then show "normalizeVolumeStep rnd (monoWork sr cd) =
      Inr \<lparr>processedBuffer = \<lparr>sampleRate = sr, channels = [out]\<rparr>, channelData = cd\<rparr>"
    by (simp add: normalizeVolumeStep_mono out_def)
  show "length out = length cd" by (simp add: out_def applyGain_def)
next
  assume pk: "peakOf cd > 1 / 1000"
  assume r: "\<bar>rnd g - g\<bar> \<le> \<bar>g\<bar> / 2 ^ 23 \<and>
             (\<forall>x\<in>set cd. \<bar>rnd (x * rnd g) - x * rnd g\<bar>
                             \<le> \<bar>x * rnd g\<bar> / 2 ^ 23 + 1 / 2 ^ 149)"
  define e :: real where "e = 1 / 2 ^ 23"
  define d :: real where "d = 1 / 2 ^ 149"
  have gain: "\<bar>rnd (targetPeak / peakOf cd) - targetPeak / peakOf cd\<bar>
                \<le> \<bar>targetPeak / peakOf cd\<bar> * e"
    using r by (simp add: e_def g_def)
  have prod: "\<forall>x\<in>set cd. \<bar>rnd (x * rnd (targetPeak / peakOf cd))
                               - x * rnd (targetPeak / peakOf cd)\<bar>
                             \<le> \<bar>x * rnd (targetPeak / peakOf cd)\<bar> * e + d"
    using r by (simp add: e_def d_def g_def)
  have e: "0 \<le> e" "e \<le> 1" by (simp_all add: e_def)
  have d: "0 \<le> d" by (simp add: d_def)
  from pk have pos: "0 < peakOf cd" by simp
  have lo: "targetPeak * (1 - e) * (1 - e) - d \<le> peakOf out"
    and hi: "peakOf out \<le> targetPeak * (1 + e) * (1 + e) + d"
    unfolding out_def using peakOf_applyGain_bounds [OF gain prod e d pos] by simp_all
  have "targetPeak - 1 / 10000 \<le> targetPeak * (1 - e) * (1 - e) - d"
    by (simp add: targetPeak_def e_def d_def)
  moreover have "targetPeak * (1 + e) * (1 + e) + d \<le> targetPeak + 1 / 10000"
    by (simp add: targetPeak_def e_def d_def)
  ultimately show "\<bar>peakOf out - targetPeak\<bar> \<le> 1 / 10000"
    using lo hi by linarith
qed


text \<open>
  With a rounding to the nearest multiple of \<open>1 / 2 ^ 24\<close>, which rounds small
  values to zero: the gain 19/10 is rounded, the buffer 1/2, -1/4 becomes
  15938355/16777216, -7969177/16777216, and the peak is within the tolerance; the buffer
  1/2000 is left as it is.
\<close>

theorem normalize_reaches_target_witness:
  "gridRound (1 / 2 ^ 26) = 0 \<and>
   peakOf [1 / 2, - 1 / 4] > 1 / 1000 \<and>
   \<bar>gridRound (19 / 10) - 19 / 10\<bar> \<le> \<bar>19 / 10\<bar> / 2 ^ 23 \<and>
   list_all (\<lambda>x. \<bar>gridRound (x * gridRound (19 / 10)) - x * gridRound (19 / 10)\<bar>
                    \<le> \<bar>x * gridRound (19 / 10)\<bar> / 2 ^ 23 + 1 / 2 ^ 149) [1 / 2, - 1 / 4] \<and>
   normalizeVolumeStep gridRound (monoWork 16000 [1 / 2, - 1 / 4]) =
     Inr \<lparr>processedBuffer =
            \<lparr>sampleRate = 16000,
             channels = [[15938355 / 16777216, - 7969177 / 16777216]]\<rparr>,
          channelData = [1 / 2, - 1 / 4]\<rparr> \<and>
   \<bar>peakOf [15938355 / 16777216, - 7969177 / 16777216] - targetPeak\<bar> \<le> 1 / 10000 \<and>
   peakOf [1 / 2000] \<le> 1 / 1000 \<and>
   normalizeVolumeStep gridRound (monoWork 16000 [1 / 2000]) = Inr (monoWork 16000 [1 / 2000])"
proof -
  have p1: "peakOf [1 / 2, - 1 / 4] = 1 / 2" by (simp add: peakOf_def)
  have p2: "peakOf [1 / 2000] = 1 / 2000" by (simp add: peakOf_def)
  have tg: "targetPeak / (1 / 2) = 19 / 10" by (simp add: targetPeak_def)
  have ag: "applyGain gridRound (1 / 2) [1 / 2, - 1 / 4] =
            [15938355 / 16777216, - 7969177 / 16777216]"
    by (simp add: applyGain_def targetPeak_def gridRound_def)
  have h1: "\<bar>gridRound (19 / 10) - 19 / 10\<bar> \<le> \<bar>19 / 10\<bar> / 2 ^ 23"
    by (simp add: gridRound_def)
  have h2: "list_all (\<lambda>x. \<bar>gridRound (x * gridRound (19 / 10)) - x * gridRound (19 / 10)\<bar>
                    \<le> \<bar>x * gridRound (19 / 10)\<bar> / 2 ^ 23 + 1 / 2 ^ 149) [1 / 2, - 1 / 4]"
    by (simp add: gridRound_def)
  have h2': "\<forall>x\<in>set [1 / 2, - 1 / 4].
               \<bar>gridRound (x * gridRound (19 / 10)) - x * gridRound (19 / 10)\<bar>
                 \<le> \<bar>x * gridRound (19 / 10)\<bar> / 2 ^ 23 + 1 / 2 ^ 149"
    using h2 by (simp only: list_all_iff)
  have small: "gridRound (1 / 2 ^ 26) = 0" by (simp add: gridRound_def)
  note a = normalize_reaches_target [where rnd = gridRound and cd = "[1 / 2, - 1 / 4]" and sr = 16000,
      unfolded p1 tg ag]
  note b = normalize_reaches_target [where rnd = gridRound and cd = "[1 / 2000]" and sr = 16000,
      unfolded p2]
  from a have a1: "normalizeVolumeStep gridRound (monoWork 16000 [1 / 2, - 1 / 4]) =
     Inr \<lparr>processedBuffer =
            \<lparr>sampleRate = 16000,
             channels = [[15938355 / 16777216, - 7969177 / 16777216]]\<rparr>,
          channelData = [1 / 2, - 1 / 4]\<rparr>"
    and a2: "\<bar>gridRound (19 / 10) - 19 / 10\<bar> \<le> \<bar>19 / 10\<bar> / 2 ^ 23 \<and>
             (\<forall>x\<in>set [1 / 2, - 1 / 4].
               \<bar>gridRound (x * gridRound (19 / 10)) - x * gridRound (19 / 10)\<bar>
                 \<le> \<bar>x * gridRound (19 / 10)\<bar> / 2 ^ 23 + 1 / 2 ^ 149) \<longrightarrow>
             \<bar>peakOf [15938355 / 16777216, - 7969177 / 16777216] - targetPeak\<bar> \<le> 1 / 10000"
    by simp_all
  from a2 h1 h2' have a3:
    "\<bar>peakOf [15938355 / 16777216, - 7969177 / 16777216] - targetPeak\<bar> \<le> 1 / 10000"
    by blast
  from b have b1: "normalizeVolumeStep gridRound (monoWork 16000 [1 / 2000]) =
                   Inr (monoWork 16000 [1 / 2000])"
    by simp
  show ?thesis
    using small h1 h2 a1 a3 b1 by (simp only: p1 p2) simp
qed

section \<open>The pipeline: the stages of a run and its result\<close>

lemma removeSilenceStep_mono:
  "removeSilenceStep (monoWork sr cd) = Inr (monoWork sr (trimSamples sr cd))"
  by (simp add: removeSilenceStep_result monoWork_def trimSamples_def Let_def)

lemma enter_Inr: "enter st f (tr, Inr x) = (tr @ [st], f x)"
  by (simp add: enter_def)

lemma enter_Inl: "enter st f (tr, Inl t) = (tr, Inl t)"
  by (simp add: enter_def)

text \<open>Steps 2 to 4 and the encoding, from a mono working state at 16 kHz.\<close>

lemma steps_on_mono:
  "enter Encode (\<lambda>w. Inr (processedFile file (audioBufferToWav (processedBuffer w))))
     (enterIf (normalizeVolume options) Normalize (normalizeVolumeStep rnd)
       (enterIf (noiseReduction options) Gate (\<lambda>w. Inr (noiseReductionStep rnd w))
         (enterIf (removeSilence options) Trim removeSilenceStep
           (tr, Inr (monoWork targetSampleRate cd))))) =
   (tr @ optionalStages options @ [Encode],
    Inr (processedFile file (audioBufferToWav
      \<lparr>sampleRate = targetSampleRate, channels = [encodedSamples rnd options cd]\<rparr>)))"
proof -
  have s2: "enterIf (removeSilence options) Trim removeSilenceStep
              (tr, Inr (monoWork targetSampleRate cd)) =
            (tr @ (if removeSilence options then [Trim] else []),
             Inr (monoWork targetSampleRate (samplesAfterTrim options cd)))"
    by (simp add: enterIf_def enter_Inr removeSilenceStep_mono samplesAfterTrim_def)
  have s3: "enterIf (noiseReduction options) Gate (\<lambda>w. Inr (noiseReductionStep rnd w))
              (tr', Inr (monoWork targetSampleRate (samplesAfterTrim options cd))) =
            (tr' @ (if noiseReduction options then [Gate] else []),
             Inr (monoWork targetSampleRate (samplesAfterGate rnd options cd)))" for tr'
    by (simp add: enterIf_def enter_Inr noiseReductionStep_mono samplesAfterGate_def)
  have s4: "enterIf (normalizeVolume options) Normalize (normalizeVolumeStep rnd)
              (tr', Inr (monoWork targetSampleRate (samplesAfterGate rnd options cd))) =
            (tr' @ (if normalizeVolume options then [Normalize] else []),
             Inr \<lparr>processedBuffer = \<lparr>sampleRate = targetSampleRate,
                                      channels = [encodedSamples rnd options cd]\<rparr>,
                  channelData = samplesAfterGate rnd options cd\<rparr>)" for tr'
    unfolding enterIf_def enter_Inr normalizeVolumeStep_mono encodedSamples_def
    by (simp add: monoWork_def)
  show ?thesis
    unfolding s2 s3 s4 by (simp add: enter_Inr optionalStages_def)
qed

lemma standard_buffer:
  assumes "isStandardFormat b"
  shows "\<exists>cd. b = \<lparr>sampleRate = targetSampleRate, channels = [cd]\<rparr>"
proof -
  from assms have "length (channels b) = 1" and sr: "sampleRate b = targetSampleRate"
    by (simp_all add: isStandardFormat_def numberOfChannels_def)
  then obtain cd where "channels b = [cd]"
    by (cases "channels b") auto
  with sr have "b = \<lparr>sampleRate = targetSampleRate, channels = [cd]\<rparr>" by (cases b) simp
  then show ?thesis ..
qed

lemma resampleStep_cases:
  "resampleStep p b =
     (if renderLength p b = 0 then Inl (JsError ''NotSupportedError'')
      else Inr \<lparr>sampleRate = targetSampleRate,
               channels = [map (resampledFrame p b) [0..<renderLength p b]]\<rparr>)"
  by (simp add: resampleStep_def Let_def)

lemma processAudio_runs:
  assumes dec: "decodeAudioData p (fileBytes file) = Some b" and np: "needsProcessing options"
  shows "processAudio p file options =
     (if \<not> isStandardFormat b \<and> renderLength p b = 0
      then ([Decoding, Resample], Inl (JsError ''NotSupportedError''))
      else (Decoding # (if isStandardFormat b then [] else [Resample]) @
              optionalStages options @ [Encode],
            Inr (processedFile file (audioBufferToWav
              \<lparr>sampleRate = targetSampleRate,
               channels = [encodedSamples (fround p) options (samplesAfterResample p b)]\<rparr>))))"
proof (cases "isStandardFormat b")
  case True
  then obtain cd where b: "b = \<lparr>sampleRate = targetSampleRate, channels = [cd]\<rparr>"
    using standard_buffer by blast
  have r1: "enterIf (\<not> isStandardFormat b) Resample (resampleStep p) ([Decoding], Inr b) =
            ([Decoding], Inr b)"
    using True by (simp add: enterIf_def)
  have w: "andThen (Inr b) (\<lambda>processedBuffer.
             andThen (getChannelData processedBuffer 0) (\<lambda>channelData.
               Inr \<lparr>processedBuffer = processedBuffer, channelData = channelData\<rparr>)) =
           Inr (monoWork targetSampleRate cd)"
    by (simp add: andThen_def getChannelData_def b monoWork_def)
  have cd: "samplesAfterResample p b = cd"
    using True by (simp add: samplesAfterResample_def) (simp add: b)
  have "processAudio p file options =
          ([Decoding] @ optionalStages options @ [Encode],
           Inr (processedFile file (audioBufferToWav
             \<lparr>sampleRate = targetSampleRate,
              channels = [encodedSamples (fround p) options cd]\<rparr>)))"
    by (simp only: processAudio_def dec option.simps np not_True_eq_False if_False Let_def r1
        fst_conv snd_conv w steps_on_mono sum.simps)
  then show ?thesis
    using True by (simp add: cd)
next
  case False
  show ?thesis
  proof (cases "renderLength p b = 0")
    case True
    have r1: "enterIf (\<not> isStandardFormat b) Resample (resampleStep p) ([Decoding], Inr b) =
              ([Decoding, Resample], Inl (JsError ''NotSupportedError''))"
      using False True by (simp add: enterIf_def enter_Inr resampleStep_cases)
    have "processAudio p file options =
            ([Decoding, Resample], Inl (JsError ''NotSupportedError''))"
      by (simp only: processAudio_def dec option.simps np not_True_eq_False if_False Let_def r1
          fst_conv snd_conv)
        (simp add: andThen_def enterIf_def enter_Inl outerCatch_def)
    then show ?thesis
      using False True by simp
  next
    case nz: False
    define cd where "cd = map (resampledFrame p b) [0..<renderLength p b]"
    have r1: "enterIf (\<not> isStandardFormat b) Resample (resampleStep p) ([Decoding], Inr b) =
              ([Decoding, Resample], Inr \<lparr>sampleRate = targetSampleRate, channels = [cd]\<rparr>)"
      using False nz by (simp add: enterIf_def enter_Inr resampleStep_cases cd_def)
    have w: "andThen (Inr \<lparr>sampleRate = targetSampleRate, channels = [cd]\<rparr>) (\<lambda>processedBuffer.
               andThen (getChannelData processedBuffer 0) (\<lambda>channelData.
                 Inr \<lparr>processedBuffer = processedBuffer, channelData = channelData\<rparr>)) =
             Inr (monoWork targetSampleRate cd)"
      by (simp add: andThen_def getChannelData_def monoWork_def)
    have cd': "samplesAfterResample p b = cd"
      using False by (simp add: samplesAfterResample_def cd_def)
    have "processAudio p file options =
            ([Decoding, Resample] @ optionalStages options @ [Encode],
             Inr (processedFile file (audioBufferToWav
               \<lparr>sampleRate = targetSampleRate,
                channels = [encodedSamples (fround p) options cd]\<rparr>)))"
      by (simp only: processAudio_def dec option.simps np not_True_eq_False if_False Let_def r1
          fst_conv snd_conv w steps_on_mono sum.simps)
    then show ?thesis
      using False nz by (simp add: cd')
  qed
qed

lemma processAudio_decode_fails:
  "decodeAudioData p (fileBytes file) = None \<Longrightarrow>
   processAudio p file options = ([Decoding], Inl (JsError decodeErrorMessage))"
  by (simp add: processAudio_def outerCatch_def)

lemma processAudio_noop:
  "decodeAudioData p (fileBytes file) = Some b \<Longrightarrow> \<not> needsProcessing options \<Longrightarrow>
   processAudio p file options = ([Decoding], Inr file)"
  by (simp add: processAudio_def)

section \<open>The encoder and the runs of processAudio\<close>

lemma length_setUint16: "length (setUint16 d) = 2"
  by (simp add: setUint16_def)

lemma length_setUint32: "length (setUint32 d) = 4"
  by (simp add: setUint32_def)

lemma length_setInt16: "length (setInt16 d) = 2"
  by (simp add: setInt16_def)

lemma length_wavHeader: "length (wavHeader b) = 44"
  by (simp add: wavHeader_def Let_def length_setUint16 length_setUint32)

lemma length_concat_const:
  "(\<And>x. x \<in> set xs \<Longrightarrow> length (f x) = c) \<Longrightarrow> length (concat (map f xs)) = length xs * c"
  by (induction xs) simp_all

lemma length_wavData: "length (wavData b) = bufferLength b * (numberOfChannels b * 2)"
proof -
  have inner: "length (concat (map (\<lambda>i. setInt16 (quantizeSample (channels b ! i ! offset)))
                 [0..<numberOfChannels b])) = numberOfChannels b * 2" for offset
    using length_concat_const [of "[0..<numberOfChannels b]"
        "\<lambda>i. setInt16 (quantizeSample (channels b ! i ! offset))" 2]
    by (simp add: length_setInt16)
  show ?thesis
    unfolding wavData_def
    using length_concat_const [of "[0..<bufferLength b]"
        "\<lambda>offset. concat (map (\<lambda>i. setInt16 (quantizeSample (channels b ! i ! offset)))
                 [0..<numberOfChannels b])" "numberOfChannels b * 2"]
    by (simp add: inner)
qed

lemma length_audioBufferToWav:
  "length (audioBufferToWav b) = 44 + 2 * numberOfChannels b * bufferLength b"
  by (simp add: audioBufferToWav_def length_wavHeader length_wavData)

text \<open>
  Where the quantiser switches: below -1/2 the clamped sample is multiplied by 32768,
  from -1/2 on by 32767.
\<close>

lemma quantizeSample_scaling:
  "quantizeSample s =
     (if s < - 1 / 2 then toInt32 (max (- 1) s * 32768) else toInt32 (min 1 s * 32767))"
  by (simp add: quantizeSample_def Let_def max_def min_def)

lemma stereo_not_standard: "\<not> isStandardFormat stereoBuffer"
  by (simp add: isStandardFormat_def stereoBuffer_def targetSampleRate_def)

lemma stereo_renderLength: "renderLength stereoPlatform stereoBuffer = 1"
  by (simp add: stereoPlatform_def)

lemma stereo_samples: "samplesAfterResample stereoPlatform stereoBuffer = [1 / 2]"
  by (simp add: samplesAfterResample_def stereo_not_standard stereo_renderLength
      stereoPlatform_def)

lemma stereo_encoded: "encodedSamples (\<lambda>y. y) onlyNormalize [1 / 2] = [19 / 20]"
  by (simp add: encodedSamples_def samplesAfterGate_def samplesAfterTrim_def onlyNormalize_def
      peakOf_def applyGain_def targetPeak_def)


text \<open>
  Claim C2 at the sample -1/4. The code tests \<open>0.5 + sample < 0\<close>, so this
  negative sample is multiplied by 32767 and becomes -8191; multiplied by 32768, as
  the claim says of every negative sample, it is -8192.
\<close>

theorem quantize_quarter_negative:
  "quantizeSample (- 1 / 4) = - 8191 \<and> quantizeAsSpecified (- 1 / 4) = - 8192"
  by (simp add: quantizeSample_def quantizeAsSpecified_def toInt32_def)

text \<open>
  Claim C1, as the code has it. When the bytes of the file decode and all four flags
  are false, \<^verbatim>\<open>processAudio\<close> returns the file it was given, and no stage after the
  decoding is entered.
\<close>

theorem noop_after_decode:
  assumes "decodeAudioData p (fileBytes file) = Some b"
    and "\<not> convertToMono16kHz options" "\<not> noiseReduction options"
    and "\<not> normalizeVolume options" "\<not> removeSilence options"
  shows "processAudio p file options = ([Decoding], Inr file)"
  using assms by (simp add: processAudio_noop needsProcessing_def)

text \<open>
  A file that decodes, with no option set.
\<close>

theorem noop_after_decode_witness:
  "decodeAudioData stereoPlatform (fileBytes exampleFile) = Some stereoBuffer \<and>
   processAudio stereoPlatform exampleFile noOptions = ([Decoding], Inr exampleFile)"
proof -
  have d: "decodeAudioData stereoPlatform (fileBytes exampleFile) = Some stereoBuffer"
    by (simp add: stereoPlatform_def)
  from noop_after_decode [OF d, of noOptions] d show ?thesis
    by (simp add: noOptions_def)
qed

text \<open>
  Claim C1 as worded (for all inputs) fails on a file that does not decode: with all
  four flags false the call throws the decode error and does not return the file.
\<close>

theorem noop_undecodable_counterexample:
  "\<not> convertToMono16kHz noOptions \<and> \<not> noiseReduction noOptions \<and>
   \<not> normalizeVolume noOptions \<and> \<not> removeSilence noOptions \<and>
   decodeAudioData rejectingPlatform (fileBytes exampleFile) = None \<and>
   snd (processAudio rejectingPlatform exampleFile noOptions) = Inl (JsError decodeErrorMessage) \<and>
   snd (processAudio rejectingPlatform exampleFile noOptions) \<noteq> Inr exampleFile"
  by (simp add: processAudio_decode_fails rejectingPlatform_def noOptions_def)

text \<open>
  Claim C3, as the code has it. In a run that decodes its input with at least one flag
  set, Step 1 is entered exactly when the decoded buffer is not already mono at 16 kHz,
  whatever the flag \<open>convertToMono16kHz\<close> says; the stages Trim, Gate and Normalize
  are entered exactly under \<open>removeSilence\<close>, \<open>noiseReduction\<close> and
  \<open>normalizeVolume\<close>; and what is encoded is a mono buffer at 16 kHz. The run ends in
  Step 1 only when the rendering would have no frame.
\<close>

theorem stages_follow_flags:
  assumes "decodeAudioData p (fileBytes file) = Some b" and "needsProcessing options"
  shows "fst (processAudio p file options) =
           (if \<not> isStandardFormat b \<and> renderLength p b = 0 then [Decoding, Resample]
            else Decoding # (if isStandardFormat b then [] else [Resample]) @
                   (if removeSilence options then [Trim] else []) @
                   (if noiseReduction options then [Gate] else []) @
                   (if normalizeVolume options then [Normalize] else []) @ [Encode]) \<and>
         (Resample \<in> set (fst (processAudio p file options))) = (\<not> isStandardFormat b) \<and>
         snd (processAudio p file options) =
           (if \<not> isStandardFormat b \<and> renderLength p b = 0
            then Inl (JsError ''NotSupportedError'')
            else Inr (processedFile file (audioBufferToWav
                   \<lparr>sampleRate = targetSampleRate,
                    channels = [encodedSamples (fround p) options
                                  (samplesAfterResample p b)]\<rparr>)))"
  by (simp add: processAudio_runs [OF assms] optionalStages_def)

text \<open>
  A stereo buffer at 44.1 kHz with only \<open>normalizeVolume\<close> set.
\<close>

theorem stages_follow_flags_witness:
  "decodeAudioData stereoPlatform (fileBytes exampleFile) = Some stereoBuffer \<and>
   needsProcessing onlyNormalize \<and>
   fst (processAudio stereoPlatform exampleFile onlyNormalize) =
     [Decoding, Resample, Normalize, Encode] \<and>
   snd (processAudio stereoPlatform exampleFile onlyNormalize) =
     Inr (processedFile exampleFile
            (audioBufferToWav \<lparr>sampleRate = targetSampleRate, channels = [[19 / 20]]\<rparr>))"
proof -
  have d: "decodeAudioData stereoPlatform (fileBytes exampleFile) = Some stereoBuffer"
    by (simp add: stereoPlatform_def)
  have n: "needsProcessing onlyNormalize"
    by (simp add: needsProcessing_def onlyNormalize_def)
  have f: "fround stereoPlatform = (\<lambda>y. y)" by (simp add: stereoPlatform_def)
  have o: "\<not> removeSilence onlyNormalize" "\<not> noiseReduction onlyNormalize"
    "normalizeVolume onlyNormalize" by (simp_all add: onlyNormalize_def)
  from stages_follow_flags [OF d n] d n show ?thesis
    by (simp add: stereo_not_standard stereo_renderLength stereo_samples f stereo_encoded o)
qed

text \<open>
  Claim C3 as worded fails: with \<open>convertToMono16kHz\<close> false and only
  \<open>normalizeVolume\<close> set, a stereo input at 44.1 kHz is resampled, and the file
  returned holds a mono buffer at 16 kHz.
\<close>

theorem resample_without_flag_counterexample:
  "\<not> convertToMono16kHz onlyNormalize \<and>
   decodeAudioData stereoPlatform (fileBytes exampleFile) = Some stereoBuffer \<and>
   sampleRate stereoBuffer = 44100 \<and> numberOfChannels stereoBuffer = 2 \<and>
   processAudio stereoPlatform exampleFile onlyNormalize =
     ([Decoding, Resample, Normalize, Encode],
      Inr (processedFile exampleFile
             (audioBufferToWav \<lparr>sampleRate = 16000, channels = [[19 / 20]]\<rparr>)))"
proof -
  have d: "decodeAudioData stereoPlatform (fileBytes exampleFile) = Some stereoBuffer"
    by (simp add: stereoPlatform_def)
  have n: "needsProcessing onlyNormalize"
    by (simp add: needsProcessing_def onlyNormalize_def)
  have f: "fround stereoPlatform = (\<lambda>y. y)" by (simp add: stereoPlatform_def)
  have o: "\<not> removeSilence onlyNormalize" "\<not> noiseReduction onlyNormalize"
    "normalizeVolume onlyNormalize" "\<not> convertToMono16kHz onlyNormalize"
    by (simp_all add: onlyNormalize_def)
  have "processAudio stereoPlatform exampleFile onlyNormalize =
     ([Decoding, Resample, Normalize, Encode],
      Inr (processedFile exampleFile
             (audioBufferToWav \<lparr>sampleRate = 16000, channels = [[19 / 20]]\<rparr>)))"
    by (simp add: processAudio_runs [OF d n] stereo_not_standard stereo_renderLength
        stereo_samples f stereo_encoded optionalStages_def o targetSampleRate_def)
  with d o show ?thesis
    by (simp add: stereoBuffer_def numberOfChannels_def)
qed

text \<open>
  Claim C9. When the decoding fails the run enters no stage after it and ends in the
  decode error, so no file is returned. When the decoding succeeds the result is never
  that error: it is the error of a rendering without frames, or the file given (no flag
  set), or the encoding of a mono buffer at 16 kHz, whose length is the 44 bytes of the
  header and two bytes for every sample.
\<close>

theorem decode_failure_is_reported:
  "(decodeAudioData p (fileBytes file) = None \<longrightarrow>
      processAudio p file options = ([Decoding], Inl (JsError decodeErrorMessage))) \<and>
   (decodeAudioData p (fileBytes file) \<noteq> None \<longrightarrow>
      snd (processAudio p file options) \<noteq> Inl (JsError decodeErrorMessage) \<and>
      (snd (processAudio p file options) = Inl (JsError ''NotSupportedError'') \<or>
       snd (processAudio p file options) = Inr file \<or>
       (\<exists>c. snd (processAudio p file options) =
               Inr (processedFile file
                      (audioBufferToWav \<lparr>sampleRate = targetSampleRate, channels = [c]\<rparr>)) \<and>
            length (audioBufferToWav \<lparr>sampleRate = targetSampleRate, channels = [c]\<rparr>) =
              44 + 2 * length c)))"
proof (intro conjI impI)
  assume "decodeAudioData p (fileBytes file) = None"
  then show "processAudio p file options = ([Decoding], Inl (JsError decodeErrorMessage))"
    by (rule processAudio_decode_fails)
next
  assume "decodeAudioData p (fileBytes file) \<noteq> None"
  then obtain b where d: "decodeAudioData p (fileBytes file) = Some b" by auto
  have len: "length (audioBufferToWav \<lparr>sampleRate = targetSampleRate, channels = [c]\<rparr>) =
             44 + 2 * length c" for c
    by (simp add: length_audioBufferToWav numberOfChannels_def bufferLength_def)
  have msg: "JsError ''NotSupportedError'' \<noteq> JsError decodeErrorMessage"
    by (simp add: decodeErrorMessage_def)
  show "snd (processAudio p file options) \<noteq> Inl (JsError decodeErrorMessage)"
  proof (cases "needsProcessing options")
    case True
    show ?thesis using msg by (simp add: processAudio_runs [OF d True])
  next
    case False
    show ?thesis by (simp add: processAudio_noop [OF d False])
  qed
  show "snd (processAudio p file options) = Inl (JsError ''NotSupportedError'') \<or>
        snd (processAudio p file options) = Inr file \<or>
        (\<exists>c. snd (processAudio p file options) =
                Inr (processedFile file
                       (audioBufferToWav \<lparr>sampleRate = targetSampleRate, channels = [c]\<rparr>)) \<and>
             length (audioBufferToWav \<lparr>sampleRate = targetSampleRate, channels = [c]\<rparr>) =
               44 + 2 * length c)"
  proof (cases "needsProcessing options")
    case True
    show ?thesis using len by (auto simp: processAudio_runs [OF d True])
  next
    case False
    show ?thesis by (simp add: processAudio_noop [OF d False])
  qed
qed

text \<open>
  A platform that rejects the file, and one that decodes it.
\<close>

theorem decode_failure_is_reported_witness:
  "decodeAudioData rejectingPlatform (fileBytes exampleFile) = None \<and>
   processAudio rejectingPlatform exampleFile onlyNormalize =
     ([Decoding], Inl (JsError decodeErrorMessage)) \<and>
   decodeAudioData stereoPlatform (fileBytes exampleFile) \<noteq> None \<and>
   snd (processAudio stereoPlatform exampleFile onlyNormalize) \<noteq>
     Inl (JsError decodeErrorMessage)"
proof -
  have d: "decodeAudioData rejectingPlatform (fileBytes exampleFile) = None"
    by (simp add: rejectingPlatform_def)
  have s: "decodeAudioData stereoPlatform (fileBytes exampleFile) \<noteq> None"
    by (simp add: stereoPlatform_def)
  from decode_failure_is_reported [of rejectingPlatform exampleFile onlyNormalize]
    decode_failure_is_reported [of stereoPlatform exampleFile onlyNormalize] d s
  show ?thesis by simp
qed

text \<open>
  Claim C10. A file that does not decode makes the call throw the decode error under
  every setting of the options, all four false included; and a call that returns a file
  has decoded its input.
\<close>

theorem decode_precedes_noop:
  "(decodeAudioData p (fileBytes file) = None \<longrightarrow>
      snd (processAudio p file options) = Inl (JsError decodeErrorMessage) \<and>
      snd (processAudio p file
             \<lparr>convertToMono16kHz = False, noiseReduction = False,
              normalizeVolume = False, removeSilence = False\<rparr>) =
        Inl (JsError decodeErrorMessage)) \<and>
   (snd (processAudio p file options) = Inr f \<longrightarrow>
      (\<exists>b. decodeAudioData p (fileBytes file) = Some b))"
proof (intro conjI impI)
  assume d: "decodeAudioData p (fileBytes file) = None"
  show "snd (processAudio p file options) = Inl (JsError decodeErrorMessage)"
    by (simp add: processAudio_decode_fails [OF d])
  show "snd (processAudio p file
             \<lparr>convertToMono16kHz = False, noiseReduction = False,
              normalizeVolume = False, removeSilence = False\<rparr>) =
        Inl (JsError decodeErrorMessage)"
    by (simp add: processAudio_decode_fails [OF d])
next
  assume r: "snd (processAudio p file options) = Inr f"
  show "\<exists>b. decodeAudioData p (fileBytes file) = Some b"
  proof (cases "decodeAudioData p (fileBytes file)")
    case None
    with r show ?thesis by (simp add: processAudio_decode_fails)
  next
    case (Some b)
    then show ?thesis by simp
  qed
qed

text \<open>
  With no option set: the decode error on a platform that rejects the file, the file
  itself on one that decodes it.
\<close>

theorem decode_precedes_noop_witness:
  "decodeAudioData rejectingPlatform (fileBytes exampleFile) = None \<and>
   snd (processAudio rejectingPlatform exampleFile noOptions) =
     Inl (JsError decodeErrorMessage) \<and>
   snd (processAudio stereoPlatform exampleFile noOptions) = Inr exampleFile \<and>
   (\<exists>b. decodeAudioData stereoPlatform (fileBytes exampleFile) = Some b)"
proof -
  have d: "decodeAudioData rejectingPlatform (fileBytes exampleFile) = None"
    by (simp add: rejectingPlatform_def)
  have s: "decodeAudioData stereoPlatform (fileBytes exampleFile) = Some stereoBuffer"
    by (simp add: stereoPlatform_def)
  have r: "snd (processAudio stereoPlatform exampleFile noOptions) = Inr exampleFile"
    by (simp add: processAudio_noop [OF s] needsProcessing_def noOptions_def)
  from decode_precedes_noop [of rejectingPlatform exampleFile noOptions]
    decode_precedes_noop [of stereoPlatform exampleFile noOptions exampleFile] d r
  show ?thesis by (simp add: noOptions_def)
qed

end
